theory Spec2Isabelle
  imports Complex_Main "HOL-Library.AList"
begin

section \<open>Modelling conventions\<close>

text \<open>
  The development embeds the parsing helpers of \<^verbatim>\<open>utils/parser.ts\<close> and the
  aggregations of \<^verbatim>\<open>utils/analytics.ts\<close>.

  \<^item> Text is a \<^typ>\<open>string\<close>; one \<^typ>\<open>char\<close> stands for one code unit below 256
    (the Latin-1 range). White space is tab, line feed, vertical tab, form feed, carriage
    return, blank and the no-break space U+00A0; case mapping covers the letters of that
    range.
  \<^item> A JavaScript number is a rational (\<^typ>\<open>rat\<close>): the model covers finite values
    and has neither infinities nor the propagation of NaN. NaN occurs only as the failure
    value of \<^verbatim>\<open>parseFloat\<close>, which is \<open>None\<close> here. The unit price of the rate
    table, whose rounding decides the group a claim falls in, is computed in binary
    floating point (\<open>toDouble\<close> below); sums, and the values read from text, are kept
    exact.
  \<^item> A thrown \<^verbatim>\<open>Error\<close> is the left injection of a sum type.
  \<^item> The built-ins whose result depends on the engine or on the time zone (the string
    form of a number, \<^verbatim>\<open>Date.parse\<close>, \<^verbatim>\<open>getTime\<close>) are the fields of a host
    record that the functions take as an argument.
  \<^item> An insertion-ordered \<^verbatim>\<open>Map\<close> is an association list: \<^const>\<open>map_of\<close> is
    \<^verbatim>\<open>get\<close>, \<^const>\<open>AList.update\<close> is \<^verbatim>\<open>set\<close> (a new key goes last, an old key
    keeps its place).
\<close>

section \<open>String primitives\<close>

definition isSpace :: "char \<Rightarrow> bool" where
  "isSpace c = (c \<in> set [CHR 0x09, CHR 0x0A, CHR 0x0B, CHR 0x0C, CHR 0x0D, CHR 0x20, CHR 0xA0])"

definition trimStart :: "string \<Rightarrow> string" where
  "trimStart s = dropWhile isSpace s"

definition trimEnd :: "string \<Rightarrow> string" where
  "trimEnd s = rev (dropWhile isSpace (rev s))"

definition trim :: "string \<Rightarrow> string" where
  "trim s = trimEnd (trimStart s)"

text \<open>
  \<^verbatim>\<open>toUpperCase\<close> and \<^verbatim>\<open>toLowerCase\<close> on the code units below 256: the letters
  a-z and the letters U+00E0 to U+00FE (the division sign U+00F7 apart) have their upper
  case 32 places lower, the sharp s U+00DF becomes \<^verbatim>\<open>SS\<close>. The micro sign U+00B5 and
  the y with diaeresis U+00FF have their upper case beyond code unit 255 (U+039C and
  U+0178): \<open>wideUpper\<close> recognises them, the model leaves them as they are, and a
  statement about the upper case of a text excludes them.
\<close>

definition wideUpper :: "char \<Rightarrow> bool" where
  "wideUpper c = (c = CHR 0xB5 \<or> c = CHR 0xFF)"

definition toUpperChar :: "char \<Rightarrow> string" where
  "toUpperChar c =
     (let n = (of_char c :: nat)
      in if (97 \<le> n \<and> n \<le> 122) \<or> (224 \<le> n \<and> n \<le> 254 \<and> n \<noteq> 247) then [char_of (n - 32)]
         else if n = 223 then ''SS'' else [c])"

definition toLowerChar :: "char \<Rightarrow> char" where
  "toLowerChar c =
     (let n = (of_char c :: nat)
      in if (65 \<le> n \<and> n \<le> 90) \<or> (192 \<le> n \<and> n \<le> 222 \<and> n \<noteq> 215) then char_of (n + 32) else c)"

definition toUpperCase :: "string \<Rightarrow> string" where
  "toUpperCase s = concat (map toUpperChar s)"

definition toLowerCase :: "string \<Rightarrow> string" where
  "toLowerCase s = map toLowerChar s"

definition startsWith :: "string \<Rightarrow> string \<Rightarrow> bool" where
  "startsWith s p = (take (length p) s = p)"

definition endsWith :: "string \<Rightarrow> string \<Rightarrow> bool" where
  "endsWith s p = (length p \<le> length s \<and> drop (length s - length p) s = p)"

fun str_includes :: "string \<Rightarrow> string \<Rightarrow> bool" where
  "str_includes [] p = (p = [])"
| "str_includes (c # cs) p = (startsWith (c # cs) p \<or> str_includes cs p)"

section \<open>Binary floating point\<close>

text \<open>
  The arithmetic of the language is binary floating point (IEEE 754 double precision,
  round to nearest, ties to even): \<open>toDouble x\<close> is the double nearest to the exact
  value \<open>x\<close>. A double between \<open>2^e\<close> and \<open>2^(e+1)\<close> is a
  multiple of \<open>2^(e-52)\<close>; below \<open>2^(-1022)\<close> the doubles are the multiples of
  \<open>2^(-1074)\<close>. A value of magnitude \<open>2^1024 - 2^970\<close> or more rounds to an infinity,
  which the model does not have: \<open>fitsDouble\<close> is the range in which \<open>toDouble\<close>
  is the operation of the machine.
\<close>

definition pow2 :: "int \<Rightarrow> rat" where
  "pow2 k = (if 0 \<le> k then 2 ^ nat k else 1 / 2 ^ nat (- k))"

text \<open>The number of binary digits of a positive integer.\<close>

function bitLength :: "int \<Rightarrow> int" where
  "bitLength a = (if a \<le> 0 then 0 else 1 + bitLength (a div 2))"
  by pat_completeness auto
termination by (relation "measure nat") auto

declare bitLength.simps [simp del]

text \<open>For a positive \<open>x\<close>, the exponent \<open>e\<close> with \<open>2^e \<le> x < 2^(e+1)\<close>.\<close>

definition floorLog2 :: "rat \<Rightarrow> int" where
  "floorLog2 x =
     (let d = bitLength (fst (quotient_of x)) - bitLength (snd (quotient_of x))
      in if pow2 d \<le> x then d else d - 1)"

definition roundHalfEven :: "rat \<Rightarrow> int" where
  "roundHalfEven q =
     (let f = \<lfloor>q\<rfloor>; r = q - of_int f
      in if r < 1 / 2 then f else if 1 / 2 < r then f + 1 else if even f then f else f + 1)"

definition toDouble :: "rat \<Rightarrow> rat" where
  "toDouble x =
     (if x = 0 then 0
      else let e = max (floorLog2 \<bar>x\<bar>) (- 1022); ulp = pow2 (e - 52)
           in of_int (roundHalfEven (x / ulp)) * ulp)"

definition fitsDouble :: "rat \<Rightarrow> bool" where
  "fitsDouble x = (\<bar>x\<bar> < 2 ^ 1024 - 2 ^ 970)"

text \<open>The rationals that are doubles: the finite values a JavaScript number can have.\<close>

definition isDouble :: "rat \<Rightarrow> bool" where
  "isDouble x = (fitsDouble x \<and> toDouble x = x)"

section \<open>Numbers read from text\<close>

definition isDigit :: "char \<Rightarrow> bool" where
  "isDigit c = (c \<in> set ''0123456789'')"

definition digitVal :: "char \<Rightarrow> nat" where
  "digitVal c = of_char c - 48"

definition digitsVal :: "string \<Rightarrow> nat" where
  "digitsVal ds = foldl (\<lambda>a c. 10 * a + digitVal c) 0 ds"

definition scaleExp :: "rat \<Rightarrow> int \<Rightarrow> rat" where
  "scaleExp v e = (if 0 \<le> e then v * 10 ^ nat e else v / 10 ^ nat (- e))"

text \<open>The exponent part \<^verbatim>\<open>e[+-]digits\<close>; a malformed one is not consumed and counts as 0.\<close>

definition parseExponent :: "string \<Rightarrow> int" where
  "parseExponent r =
     (case r of
        [] \<Rightarrow> 0
      | c # r1 \<Rightarrow>
          if c = CHR ''e'' \<or> c = CHR ''E'' then
            (let neg = (r1 \<noteq> [] \<and> hd r1 = CHR ''-'');
                 r2 = (if r1 \<noteq> [] \<and> (hd r1 = CHR ''-'' \<or> hd r1 = CHR ''+'') then tl r1 else r1);
                 ed = takeWhile isDigit r2
             in if ed = [] then 0 else if neg then - int (digitsVal ed) else int (digitsVal ed))
          else 0)"

text \<open>
  The longest prefix that is an unsigned decimal literal: digits, an optional fraction,
  an optional exponent; at least one digit is needed before or after the point.
\<close>

definition parseUnsigned :: "string \<Rightarrow> rat option" where
  "parseUnsigned s =
     (let ip = takeWhile isDigit s;
          r1 = dropWhile isDigit s;
          hasDot = (r1 \<noteq> [] \<and> hd r1 = CHR ''.'');
          fp = (if hasDot then takeWhile isDigit (tl r1) else []);
          r2 = (if hasDot then dropWhile isDigit (tl r1) else r1)
      in if ip = [] \<and> fp = [] then None
         else Some (scaleExp (of_nat (digitsVal ip) + of_nat (digitsVal fp) / 10 ^ length fp)
                      (parseExponent r2)))"


definition parseFloat :: "string \<Rightarrow> rat option" where
  "parseFloat s =
     (case trimStart s of
        [] \<Rightarrow> None
      | c # r \<Rightarrow>
          if c = CHR ''-'' then map_option uminus (parseUnsigned r)
          else if c = CHR ''+'' then parseUnsigned r
          else parseUnsigned (c # r))"

section \<open>Cells\<close>

text \<open>
  A value read from a row: a CSV row holds strings, a decoded spreadsheet row holds
  strings, numbers, booleans or \<^verbatim>\<open>null\<close>; reading past the end of a row gives
  \<^verbatim>\<open>undefined\<close>.
\<close>

datatype cell = Str string | Number rat | Bool bool | Null | Undefined

section \<open>normalizeMoney\<close>

text \<open>The characters the regular expression \<^verbatim>\<open>/[$,\s]/g\<close> removes.\<close>

definition moneyNoise :: "char \<Rightarrow> bool" where
  "moneyNoise c = (c = CHR ''$'' \<or> c = CHR '','' \<or> isSpace c)"

text \<open>Lines 11-12 of the source: the text handed to \<^verbatim>\<open>parseFloat\<close>.\<close>

definition moneyText :: "string \<Rightarrow> string" where
  "moneyText str =
     (let s = trim (filter (\<lambda>c. \<not> moneyNoise c) str)
      in if startsWith s ''('' \<and> endsWith s '')'' then CHR ''-'' # butlast (tl s) else s)"

definition moneyOfString :: "string \<Rightarrow> rat" where
  "moneyOfString str = (case parseFloat (moneyText str) of None \<Rightarrow> 0 | Some n \<Rightarrow> n)"

text \<open>
  \<^verbatim>\<open>if (!str) return 0\<close> catches \<^verbatim>\<open>undefined\<close>, \<^verbatim>\<open>null\<close>, the empty string,
  \<^verbatim>\<open>false\<close> and the number 0; a number is returned as it is; everything else goes
  through its string form (\<^verbatim>\<open>String(true)\<close> is \<^verbatim>\<open>"true"\<close>).
\<close>

fun normalizeMoney :: "cell \<Rightarrow> rat" where
  "normalizeMoney Undefined = 0"
| "normalizeMoney Null = 0"
| "normalizeMoney (Bool b) = (if b then moneyOfString ''true'' else 0)"
| "normalizeMoney (Number n) = (if n = 0 then 0 else n)"
| "normalizeMoney (Str s) = (if s = [] then 0 else moneyOfString s)"

section \<open>Dates\<close>

text \<open>
  A \<^verbatim>\<open>Date\<close> is either the local midnight of a civil day, as
  \<^verbatim>\<open>new Date(year, monthIndex, day)\<close> builds it (kept here with its year, its month
  1..12 and its day of the month, after the constructor's roll-over), or the instant
  \<^verbatim>\<open>new Date(t)\<close> of a time value in milliseconds.
\<close>

datatype jsdate = LocalDate int int int | Instant int

definition isLeap :: "int \<Rightarrow> bool" where
  "isLeap y = (y mod 4 = 0 \<and> (y mod 100 \<noteq> 0 \<or> y mod 400 = 0))"

definition daysInMonth :: "int \<Rightarrow> int \<Rightarrow> int" where
  "daysInMonth y m =
     (if m = 2 then (if isLeap y then 29 else 28)
      else if m = 4 \<or> m = 6 \<or> m = 9 \<or> m = 11 then 30 else 31)"

definition prevYear :: "int \<Rightarrow> int \<Rightarrow> int" where
  "prevYear y m = (if m \<le> 1 then y - 1 else y)"

definition prevMonth :: "int \<Rightarrow> int" where
  "prevMonth m = (if m \<le> 1 then 12 else m - 1)"

definition nextYear :: "int \<Rightarrow> int \<Rightarrow> int" where
  "nextYear y m = (if 12 \<le> m then y + 1 else y)"

definition nextMonth :: "int \<Rightarrow> int" where
  "nextMonth m = (if 12 \<le> m then 1 else m + 1)"

text \<open>
  The roll-over of the day: a day below 1 counts back from the end of the month before,
  a day beyond the month's length runs on into the following months.
\<close>

function rollDay :: "int \<Rightarrow> int \<Rightarrow> int \<Rightarrow> jsdate" where
  "rollDay y m d =
     (if d < 1 then
        rollDay (prevYear y m) (prevMonth m) (d + daysInMonth (prevYear y m) (prevMonth m))
      else if daysInMonth y m < d then
        rollDay (nextYear y m) (nextMonth m) (d - daysInMonth y m)
      else LocalDate y m d)"
  by pat_completeness auto
termination
  by (relation "measure (\<lambda>(y, m, d). if d < 1 then nat (1 - d) + 32 else nat d)")
     (auto simp: daysInMonth_def)

declare rollDay.simps [simp del]

text \<open>
  \<^verbatim>\<open>new Date(year, monthIndex, day)\<close>: a year 0..99 means 1900 + year, the month index
  rolls over into the year, the day rolls over into the months. (The years the parser
  passes have at most four digits, so the time value is always in range.)
\<close>

definition newDate :: "int \<Rightarrow> int \<Rightarrow> int \<Rightarrow> jsdate" where
  "newDate year monthIndex day =
     (let y = (if 0 \<le> year \<and> year \<le> 99 then 1900 + year else year)
      in rollDay (y + monthIndex div 12) (monthIndex mod 12 + 1) day)"

section \<open>The host\<close>

text \<open>
  Three built-ins depend on the engine and its time zone and are parameters of the
  model: the string form of a number, \<^verbatim>\<open>Date.parse\<close> (\<open>None\<close> is NaN) and
  \<^verbatim>\<open>Date.prototype.getTime\<close>.
\<close>

record host =
  numToString :: "rat \<Rightarrow> string"
  dateParse :: "string \<Rightarrow> int option"
  getTime :: "jsdate \<Rightarrow> int"

text \<open>\<^verbatim>\<open>String(v)\<close> and the truth value of \<^verbatim>\<open>v\<close>.\<close>

fun cellString :: "host \<Rightarrow> cell \<Rightarrow> string" where
  "cellString h (Str s) = s"
| "cellString h (Number n) = numToString h n"
| "cellString h (Bool b) = (if b then ''true'' else ''false'')"
| "cellString h Null = ''null''"
| "cellString h Undefined = ''undefined''"

fun truthy :: "cell \<Rightarrow> bool" where
  "truthy (Str s) = (s \<noteq> [])"
| "truthy (Number n) = (n \<noteq> 0)"
| "truthy (Bool b) = b"
| "truthy Null = False"
| "truthy Undefined = False"

section \<open>parseDOS\<close>

text \<open>\<^verbatim>\<open>s.split(d)\<close> for a one-character separator.\<close>

fun splitOn :: "char \<Rightarrow> string \<Rightarrow> string list" where
  "splitOn d [] = [[]]"
| "splitOn d (c # cs) =
     (if c = d then [] # splitOn d cs
      else (case splitOn d cs of [] \<Rightarrow> [[c]] | p # ps \<Rightarrow> (c # p) # ps))"

text \<open>
  \<^verbatim>\<open>/^(\d{4})-(\d{2})-(\d{2})$/\<close>: three runs of digits of lengths 4, 2 and 2 with
  hyphens between; the groups are returned as numbers.
\<close>

definition matchISO :: "string \<Rightarrow> (int \<times> int \<times> int) option" where
  "matchISO s =
     (case splitOn (CHR ''-'') s of
        [a, b, c] \<Rightarrow>
          if length a = 4 \<and> length b = 2 \<and> length c = 2 \<and> list_all isDigit (a @ b @ c)
          then Some (int (digitsVal a), int (digitsVal b), int (digitsVal c))
          else None
      | _ \<Rightarrow> None)"

text \<open>\<^verbatim>\<open>/^(\d{1,2})\/(\d{1,2})\/(\d{2,4})$/\<close>.\<close>

definition matchMDY :: "string \<Rightarrow> (int \<times> int \<times> int) option" where
  "matchMDY s =
     (case splitOn (CHR ''/'') s of
        [a, b, c] \<Rightarrow>
          if 1 \<le> length a \<and> length a \<le> 2 \<and> 1 \<le> length b \<and> length b \<le> 2
             \<and> 2 \<le> length c \<and> length c \<le> 4 \<and> list_all isDigit (a @ b @ c)
          then Some (int (digitsVal a), int (digitsVal b), int (digitsVal c))
          else None
      | _ \<Rightarrow> None)"

definition parseDOS :: "host \<Rightarrow> cell \<Rightarrow> jsdate option" where
  "parseDOS h str =
     (if \<not> truthy str then None
      else
        let s = trim (cellString h str) in
        case matchISO s of
          Some (y, m, d) \<Rightarrow> Some (newDate y (m - 1) d)
        | None \<Rightarrow>
            (case matchMDY s of
               Some (mo, dd, yy) \<Rightarrow> Some (newDate (if yy < 100 then yy + 2000 else yy) (mo - 1) dd)
             | None \<Rightarrow>
                 (case dateParse h s of None \<Rightarrow> None | Some t \<Rightarrow> Some (Instant t))))"

section \<open>A host for the examples\<close>

text \<open>
  The examples below are evaluated in one fixed host: the time zone is UTC, a number
  prints as a decimal numeral (at most twenty fraction digits), and \<^verbatim>\<open>Date.parse\<close>
  recognises nothing. No example reaches \<^verbatim>\<open>Date.parse\<close>.
\<close>

definition digitChar :: "nat \<Rightarrow> char" where
  "digitChar n = char_of (48 + n)"

fun showNat :: "nat \<Rightarrow> string" where
  "showNat n = (if n < 10 then [digitChar n] else showNat (n div 10) @ [digitChar (n mod 10)])"

fun fracDigits :: "nat \<Rightarrow> rat \<Rightarrow> string" where
  "fracDigits 0 r = []"
| "fracDigits (Suc k) r =
     (if r = 0 then []
      else digitChar (nat \<lfloor>r * 10\<rfloor>) # fracDigits k (r * 10 - of_int \<lfloor>r * 10\<rfloor>))"

definition showRat :: "rat \<Rightarrow> string" where
  "showRat n =
     (let a = \<bar>n\<bar>; ip = nat \<lfloor>a\<rfloor>; fr = a - of_int \<lfloor>a\<rfloor>
      in (if n < 0 then ''-'' else []) @ showNat ip @ (if fr = 0 then [] else CHR ''.'' # fracDigits 20 fr))"

text \<open>Days from 1970-01-01 to the civil day \<open>y-m-d\<close> (proleptic Gregorian calendar).\<close>

definition daysFromCivil :: "int \<Rightarrow> int \<Rightarrow> int \<Rightarrow> int" where
  "daysFromCivil y m d =
     (let y' = (if m \<le> 2 then y - 1 else y);
          era = y' div 400;
          yoe = y' - era * 400;
          doy = (153 * (if 2 < m then m - 3 else m + 9) + 2) div 5 + d - 1;
          doe = yoe * 365 + yoe div 4 - yoe div 100 + doy
      in era * 146097 + doe - 719468)"

definition sampleHost :: host where
  "sampleHost =
     \<lparr> numToString = showRat,
       dateParse = (\<lambda>s. None),
       getTime = (\<lambda>d. case d of LocalDate y m dd \<Rightarrow> daysFromCivil y m dd * 86400000 | Instant t \<Rightarrow> t) \<rparr>"

section \<open>Claims\<close>

datatype CodeType = AQL | NUMERIC | OTHER

record claim =
  claim_id :: int
  provider :: string
  cpt :: string
  codeType :: CodeType
  units :: rat
  charge :: rat
  paid :: rat
  patientId :: string
  patientName :: string
  payer :: string
  dos :: "jsdate option"
  dateSort :: int
  isPaid :: bool

text \<open>The two hard errors of the parsers, each thrown with a message naming the missing header.\<close>

datatype error = MissingCPTColumn | MissingDOSHeader

section \<open>Small helpers of the parser\<close>

abbreviation DQ :: char where "DQ \<equiv> CHR 0x22"
abbreviation LF :: char where "LF \<equiv> CHR 0x0A"
abbreviation CR :: char where "CR \<equiv> CHR 0x0D"
abbreviation TAB :: char where "TAB \<equiv> CHR 0x09"

text \<open>\<^verbatim>\<open>text.split(/\r?\n/)\<close>: a carriage return right before a line feed goes with it.\<close>

definition dropCR :: "string \<Rightarrow> string" where
  "dropCR p = (if p \<noteq> [] \<and> last p = CR then butlast p else p)"

definition splitLines :: "string \<Rightarrow> string list" where
  "splitLines text = (let ps = splitOn LF text in map dropCR (butlast ps) @ [last ps])"

definition detectDelimiter :: "string \<Rightarrow> char" where
  "detectDelimiter text =
     (let firstLine = (case find (\<lambda>l. trim l \<noteq> []) (splitLines text) of Some l \<Rightarrow> l | None \<Rightarrow> [])
      in if TAB \<in> set firstLine then TAB else CHR '','')"

definition normalizePayerName :: "string \<Rightarrow> string" where
  "normalizePayerName raw =
     (if raw = [] then ''Unknown Payer''
      else
        let upper = trim (toUpperCase raw) in
        if str_includes upper ''UNITED HEALTH'' \<or> str_includes upper ''UNITEDHEALTH''
           \<or> str_includes upper ''UHC'' \<or> upper = ''UNITED''
        then ''UnitedHealthcare''
        else trim raw)"

definition determineCodeType :: "string \<Rightarrow> CodeType" where
  "determineCodeType c =
     (let upperCpt = toUpperCase c in
      if upperCpt \<noteq> [] \<and> hd upperCpt \<in> set ''AQL'' then AQL
      else if upperCpt \<noteq> [] \<and> isDigit (hd upperCpt) then NUMERIC
      else OTHER)"

section \<open>parseCSVLine\<close>

text \<open>
  The loop over the characters of the text, with its four variables: the field and the
  row being built, the rows finished, and whether the position is inside quotes. Inside
  quotes a quote followed by a quote is one literal quote and both are consumed.
\<close>

fun csvLoop :: "char \<Rightarrow> string \<Rightarrow> string \<Rightarrow> string list \<Rightarrow> string list list \<Rightarrow> bool \<Rightarrow> string list list" where
  "csvLoop delim [] field row rows inQuotes =
     (if field \<noteq> [] \<or> row \<noteq> [] then rows @ [row @ [field]] else rows)"
| "csvLoop delim (c # cs) field row rows True =
     (if c = DQ then
        (case cs of
           [] \<Rightarrow> csvLoop delim cs field row rows False
         | c' # cs' \<Rightarrow>
             if c' = DQ then csvLoop delim cs' (field @ [DQ]) row rows True
             else csvLoop delim cs field row rows False)
      else csvLoop delim cs (field @ [c]) row rows True)"
| "csvLoop delim (c # cs) field row rows False =
     (if c = DQ then csvLoop delim cs field row rows True
      else if c = delim then csvLoop delim cs [] (row @ [field]) rows False
      else if c = LF then csvLoop delim cs [] [] (rows @ [row @ [field]]) False
      else if c \<noteq> CR then csvLoop delim cs (field @ [c]) row rows False
      else csvLoop delim cs field row rows False)"

definition parseCSVLine :: "string \<Rightarrow> char \<Rightarrow> string list list" where
  "parseCSVLine text delim = csvLoop delim text [] [] [] False"

section \<open>The export escaping\<close>

text \<open>\<^verbatim>\<open>escape\<close> of \<^verbatim>\<open>downloadCSV\<close>, on the string form of the value.\<close>

definition escape :: "string \<Rightarrow> string" where
  "escape str =
     (if CHR '','' \<in> set str \<or> DQ \<in> set str \<or> LF \<in> set str
      then [DQ] @ concat (map (\<lambda>c. if c = DQ then [DQ, DQ] else [c]) str) @ [DQ]
      else str)"

section \<open>parseClaimsData\<close>

text \<open>\<^verbatim>\<open>header.indexOf(cand)\<close> and the local \<^verbatim>\<open>findIdx\<close>: -1 when nothing is found.\<close>

fun indexOf :: "string list \<Rightarrow> string \<Rightarrow> int" where
  "indexOf [] x = - 1"
| "indexOf (y # ys) x = (if y = x then 0 else (let i = indexOf ys x in if i = - 1 then - 1 else i + 1))"

fun findIdx :: "string list \<Rightarrow> string list \<Rightarrow> int" where
  "findIdx header [] = - 1"
| "findIdx header (cand # cands) = (let i = indexOf header cand in if i \<noteq> - 1 then i else findIdx header cands)"

text \<open>\<^verbatim>\<open>row[i]\<close> on a row of strings: \<open>None\<close> is \<^verbatim>\<open>undefined\<close> (index -1 or past the end).\<close>

definition csvAt :: "string list \<Rightarrow> int \<Rightarrow> string option" where
  "csvAt row i = (if 0 \<le> i \<and> nat i < length row then Some (row ! nat i) else None)"

definition cellOf :: "string option \<Rightarrow> cell" where
  "cellOf v = (case v of None \<Rightarrow> Undefined | Some s \<Rightarrow> Str s)"

text \<open>\<^verbatim>\<open>v || d\<close> for a string or \<^verbatim>\<open>undefined\<close> \<^verbatim>\<open>v\<close>.\<close>

definition orElse :: "string option \<Rightarrow> string \<Rightarrow> string" where
  "orElse v d = (case v of None \<Rightarrow> d | Some s \<Rightarrow> if s = [] then d else s)"

text \<open>\<^verbatim>\<open>parseFloat(v) || 0\<close>: NaN and 0 both give 0.\<close>

definition floatOrZero :: "host \<Rightarrow> cell \<Rightarrow> rat" where
  "floatOrZero h v = (case parseFloat (cellString h v) of None \<Rightarrow> 0 | Some n \<Rightarrow> n)"

record csvCols =
  iCPT :: int
  iUnits :: int
  iCharges :: int
  iPaid :: int
  iPatientID :: int
  iPatientName :: int
  iPayer :: int
  iDOS :: int
  iProvider :: int

definition resolveCols :: "string list \<Rightarrow> csvCols" where
  "resolveCols header =
     \<lparr> iCPT = findIdx header [''cpt'', ''procedure code'', ''proc code''],
       iUnits = findIdx header [''days_or_units'', ''units'', ''days'', ''qty''],
       iCharges = findIdx header [''charges'', ''charge'', ''billed''],
       iPaid = findIdx header [''insurance_payment'', ''paid'', ''payment'', ''ins paid''],
       iPatientID = findIdx header [''patient_id'', ''id'', ''mrn'', ''account number''],
       iPatientName = findIdx header [''patient_name'', ''patient'', ''name'', ''patient name''],
       iPayer = findIdx header [''insurance provider'', ''payer'', ''insurance'', ''plan'', ''insurance_name''],
       iDOS = findIdx header [''date_of_service'', ''dos'', ''date'', ''service date''],
       iProvider = findIdx header [''provider'', ''rendering provider'', ''rendering_provider'', ''attending''] \<rparr>"

text \<open>
  One pass of the loop body over a data row: \<open>None\<close> when the row is skipped
  (\<^verbatim>\<open>continue\<close>), otherwise the claim pushed, numbered with the current counter.
\<close>

definition csvClaim :: "host \<Rightarrow> string \<Rightarrow> csvCols \<Rightarrow> int \<Rightarrow> string list \<Rightarrow> claim option" where
  "csvClaim h fallbackProvider cols idCounter row =
     (case csvAt row (iCPT cols) of
        None \<Rightarrow> None
      | Some raw \<Rightarrow>
          if raw = [] then None
          else
            let c = trim raw in
            if c = [] then None
            else
              let u = floatOrZero h (cellOf (csvAt row (iUnits cols)));
                  ch = normalizeMoney (cellOf (csvAt row (iCharges cols)));
                  pd = \<bar>normalizeMoney (cellOf (csvAt row (iPaid cols)))\<bar>;
                  prov = orElse (if iProvider cols \<noteq> - 1 then csvAt row (iProvider cols) else Some [])
                           (if fallbackProvider \<noteq> [] then fallbackProvider else ''Unknown Provider'');
                  rawPayer = orElse (if iPayer cols \<noteq> - 1 then csvAt row (iPayer cols) else Some [])
                               ''Unknown Payer'';
                  pid = orElse (if iPatientID cols \<noteq> - 1 then csvAt row (iPatientID cols) else Some [])
                          ''Unknown ID'';
                  pname = orElse (if iPatientName cols \<noteq> - 1 then csvAt row (iPatientName cols) else Some [])
                            ''Unknown Patient'';
                  d = parseDOS h (if iDOS cols \<noteq> - 1 then cellOf (csvAt row (iDOS cols)) else Undefined)
              in Some \<lparr> claim_id = idCounter,
                        provider = prov,
                        cpt = toUpperCase c,
                        codeType = determineCodeType c,
                        units = u,
                        charge = ch,
                        paid = pd,
                        patientId = pid,
                        patientName = pname,
                        payer = normalizePayerName rawPayer,
                        dos = d,
                        dateSort = (case d of None \<Rightarrow> 0 | Some t \<Rightarrow> getTime h t),
                        isPaid = (1 / 100 < pd) \<rparr>)"

text \<open>The \<^verbatim>\<open>for\<close> loop over the data rows with its counter.\<close>

fun csvRows :: "host \<Rightarrow> string \<Rightarrow> csvCols \<Rightarrow> int \<Rightarrow> string list list \<Rightarrow> claim list" where
  "csvRows h fb cols idCounter [] = []"
| "csvRows h fb cols idCounter (row # rows) =
     (case csvClaim h fb cols idCounter row of
        None \<Rightarrow> csvRows h fb cols idCounter rows
      | Some c \<Rightarrow> c # csvRows h fb cols (idCounter + 1) rows)"

definition parseClaimsData :: "host \<Rightarrow> string \<Rightarrow> string \<Rightarrow> error + claim list" where
  "parseClaimsData h text fallbackProvider =
     (let delim = detectDelimiter text;
          rawRows = parseCSVLine text delim
      in if length rawRows < 2 then Inr []
         else
           let header = map (\<lambda>x. trim (toLowerCase x)) (hd rawRows);
               dataRows = tl rawRows;
               cols = resolveCols header
           in if iCPT cols = - 1 then Inl MissingCPTColumn
              else Inr (csvRows h fallbackProvider cols 1 dataRows))"

text \<open>
  The wording of the specification for row acceptance: a data row is kept when its
  procedure-code cell exists and is non-empty after trimming.
\<close>

definition spec_rowKept :: "int \<Rightarrow> string list \<Rightarrow> bool" where
  "spec_rowKept i row = (case csvAt row i of None \<Rightarrow> False | Some s \<Rightarrow> trim s \<noteq> [])"

text \<open>The rows and the resolved header that \<^const>\<open>parseClaimsData\<close> works on.\<close>

definition csvRowsOf :: "string \<Rightarrow> string list list" where
  "csvRowsOf text = parseCSVLine text (detectDelimiter text)"

definition csvHeaderOf :: "string \<Rightarrow> string list" where
  "csvHeaderOf text = map (\<lambda>x. trim (toLowerCase x)) (hd (csvRowsOf text))"

section \<open>Rate inference\<close>

datatype Method = MethodMode | MethodMax | MethodNone

record ReimbursementRate =
  payer_r :: string
  cpt_r :: string
  expectedRate :: rat
  method_r :: Method
  frequency :: nat

text \<open>\<^verbatim>\<open>payerRates?.get(cpt)\<close> on a map of maps.\<close>

definition lookup2 :: "('a \<times> ('b \<times> 'c) list) list \<Rightarrow> 'a \<Rightarrow> 'b \<Rightarrow> 'c option" where
  "lookup2 m p c = (case map_of m p of None \<Rightarrow> None | Some inner \<Rightarrow> map_of inner c)"

text \<open>\<^verbatim>\<open>Math.round\<close>: the nearest integer, a half going upwards.\<close>

definition mathRound :: "rat \<Rightarrow> int" where
  "mathRound x = \<lfloor>x + 1 / 2\<rfloor>"

text \<open>
  Lines 15-17 of the source: \<^verbatim>\<open>c.paid / c.units\<close>, then
  \<^verbatim>\<open>Math.round(ratePerUnit * 100) / 100\<close>, each operation rounded to a double.
\<close>

definition roundedRate :: "claim \<Rightarrow> rat" where
  "roundedRate c = toDouble (of_int (mathRound (toDouble (toDouble (paid c / units c) * 100))) / 100)"

text \<open>
  The claims on which this is the computation of the machine: the paid amount and the
  units are doubles, as every JavaScript number is, and the unit price stays in the finite
  range at each step.
\<close>

definition rateInRange :: "claim \<Rightarrow> bool" where
  "rateInRange c =
     (isDouble (paid c) \<and> isDouble (units c) \<and>
      fitsDouble (paid c / units c) \<and> fitsDouble (toDouble (paid c / units c) * 100))"

definition qualifies :: "claim \<Rightarrow> bool" where
  "qualifies c = (isPaid c \<and> 0 < paid c \<and> 0 < units c)"

text \<open>
  The body of the first \<^verbatim>\<open>forEach\<close>: the payer's map and the code's array are created
  when missing, and the rounded rate is pushed.
\<close>

definition pushRate :: "(string \<times> (string \<times> rat list) list) list \<Rightarrow> claim \<Rightarrow> (string \<times> (string \<times> rat list) list) list" where
  "pushRate hist c =
     (let hist1 = (if map_of hist (payer c) = None then AList.update (payer c) [] hist else hist);
          payerMap = (case map_of hist1 (payer c) of None \<Rightarrow> [] | Some pm \<Rightarrow> pm);
          payerMap1 = (if map_of payerMap (cpt c) = None then AList.update (cpt c) [] payerMap else payerMap);
          rates = (case map_of payerMap1 (cpt c) of None \<Rightarrow> [] | Some rs \<Rightarrow> rs)
      in AList.update (payer c) (AList.update (cpt c) (rates @ [roundedRate c]) payerMap1) hist1)"

definition pricingHistory :: "claim list \<Rightarrow> (string \<times> (string \<times> rat list) list) list" where
  "pricingHistory claims = foldl pushRate [] (filter qualifies claims)"

text \<open>
  The first inner loop: the histogram \<^verbatim>\<open>frequency\<close>, kept in insertion order, and
  \<^verbatim>\<open>maxRate\<close>.
\<close>

definition countRate :: "(rat \<times> nat) list \<times> rat \<Rightarrow> rat \<Rightarrow> (rat \<times> nat) list \<times> rat" where
  "countRate st r =
     (AList.update r ((case map_of (fst st) r of None \<Rightarrow> 0 | Some n \<Rightarrow> n) + 1) (fst st),
      if snd st < r then r else snd st)"

text \<open>
  \<^verbatim>\<open>Object.entries(frequency)\<close>: the keys that are array indices (whole numbers from 0
  to 4294967294) come first in ascending order, the other keys follow in insertion
  order. A key is the string form of the rate and \<^verbatim>\<open>parseFloat\<close> reads the rate back
  from it; the model keeps the rate itself.
\<close>

definition isArrayIndex :: "rat \<Rightarrow> bool" where
  "isArrayIndex r = (of_int \<lfloor>r\<rfloor> = r \<and> 0 \<le> r \<and> r < 4294967295)"

definition objectEntries :: "(rat \<times> nat) list \<Rightarrow> (rat \<times> nat) list" where
  "objectEntries fr =
     sort_key fst (filter (\<lambda>e. isArrayIndex (fst e)) fr) @ filter (\<lambda>e. \<not> isArrayIndex (fst e)) fr"

text \<open>The second inner loop, on the pair (\<^verbatim>\<open>modeRate\<close>, \<^verbatim>\<open>maxFreq\<close>).\<close>

definition modeStep :: "rat \<times> nat \<Rightarrow> rat \<times> nat \<Rightarrow> rat \<times> nat" where
  "modeStep st e =
     (if snd st < snd e then (fst e, snd e)
      else if snd e = snd st \<and> fst st < fst e then (fst e, snd st)
      else st)"

definition rateEntry :: "string \<Rightarrow> string \<Rightarrow> rat list \<Rightarrow> ReimbursementRate" where
  "rateEntry p c rates =
     (let st = foldl countRate ([], 0) rates;
          freq = fst st;
          maxRate = snd st;
          distinctRates = length freq;
          md = foldl modeStep (0, 0) (objectEntries freq);
          modeRate = fst md;
          maxFreq = snd md
      in \<lparr> payer_r = p, cpt_r = c,
           expectedRate = (if 2 < distinctRates then modeRate else maxRate),
           method_r = (if 2 < distinctRates then MethodMode else MethodMax),
           frequency = maxFreq \<rparr>)"

text \<open>
  The second \<^verbatim>\<open>forEach\<close>: the payer's result map is created when missing, then every
  code of the payer gets its entry.
\<close>

definition setEntry :: "string \<Rightarrow> (string \<times> (string \<times> ReimbursementRate) list) list \<Rightarrow> string \<times> rat list \<Rightarrow> (string \<times> (string \<times> ReimbursementRate) list) list" where
  "setEntry p results e =
     (case map_of results p of
        None \<Rightarrow> results
      | Some inner \<Rightarrow> AList.update p (AList.update (fst e) (rateEntry p (fst e) (snd e)) inner) results)"

definition setPayer :: "(string \<times> (string \<times> ReimbursementRate) list) list \<Rightarrow> string \<times> (string \<times> rat list) list \<Rightarrow> (string \<times> (string \<times> ReimbursementRate) list) list" where
  "setPayer results pe =
     (let results1 = (if map_of results (fst pe) = None then AList.update (fst pe) [] results else results)
      in foldl (setEntry (fst pe)) results1 (snd pe))"

definition calculateReimbursementRates :: "claim list \<Rightarrow> (string \<times> (string \<times> ReimbursementRate) list) list" where
  "calculateReimbursementRates claims = foldl setPayer [] (pricingHistory claims)"

text \<open>
  The wording of the specification for one group of rates: the number of occurrences of
  a rate, the highest number of occurrences, the mode rate (the highest of the most
  frequent rates) and the highest rate.
\<close>

definition spec_maxFreq :: "rat list \<Rightarrow> nat" where
  "spec_maxFreq rs = Max ((\<lambda>r. count_list rs r) ` set rs)"

definition spec_modeRate :: "rat list \<Rightarrow> rat" where
  "spec_modeRate rs = Max {r \<in> set rs. count_list rs r = spec_maxFreq rs}"

definition spec_maxRate :: "rat list \<Rightarrow> rat" where
  "spec_maxRate rs = Max (set rs)"

text \<open>The rounded unit prices of the qualifying claims of one payer and one code, in input order.\<close>

definition groupRates :: "claim list \<Rightarrow> string \<Rightarrow> string \<Rightarrow> rat list" where
  "groupRates claims p c = map roundedRate (filter (\<lambda>x. qualifies x \<and> payer x = p \<and> cpt x = c) claims)"

text \<open>Auxiliary notions for the proofs about the rate table.\<close>

text \<open>The result entry of one payer of the pricing history.\<close>

definition entriesOf :: "string \<times> (string \<times> rat list) list \<Rightarrow> string \<times> (string \<times> ReimbursementRate) list" where
  "entriesOf pe = (fst pe, map (\<lambda>e. (fst e, rateEntry (fst pe) (fst e) (snd e))) (snd pe))"

text \<open>A pricing history whose payers are distinct and whose codes are distinct under each payer.\<close>

definition wfHist :: "(string \<times> (string \<times> rat list) list) list \<Rightarrow> bool" where
  "wfHist hist = (distinct (map fst hist) \<and> (\<forall>p m. map_of hist p = Some m \<longrightarrow> distinct (map fst m)))"

text \<open>
  A pair (rate, count) of a set that no other pair of the set beats: none has a higher
  count, and none with the same count has a higher rate.
\<close>

definition best :: "(rat \<times> nat) set \<Rightarrow> rat \<times> nat \<Rightarrow> bool" where
  "best S st = (st \<in> S \<and> (\<forall>e\<in>S. snd e < snd st \<or> (snd e = snd st \<and> fst e \<le> fst st)))"

text \<open>A claim with the fields the aggregations read, for the examples.\<close>

definition exampleClaim :: "string \<Rightarrow> string \<Rightarrow> string \<Rightarrow> rat \<Rightarrow> rat \<Rightarrow> rat \<Rightarrow> claim" where
  "exampleClaim pat p c u ch pd =
     \<lparr> claim_id = 0, provider = ''Dr X'', cpt = c, codeType = determineCodeType c, units = u,
       charge = ch, paid = pd, patientId = pat, patientName = ''Unknown Patient'', payer = p,
       dos = None, dateSort = 0, isPaid = (1 / 100 < pd) \<rparr>"

section \<open>Denial opportunity\<close>

record PayerDenialStats =
  payer_d :: string
  deniedUnits :: rat
  deniedValue :: rat
  projectedValue :: rat

text \<open>
  The body of the \<^verbatim>\<open>forEach\<close> over the unpaid claims: the payer's record is created
  when missing, units and charge are added, and the projected value grows only when the
  rate table has an entry for the payer and the code.
\<close>

definition addDenial :: "(string \<times> (string \<times> ReimbursementRate) list) list \<Rightarrow> (string \<times> PayerDenialStats) list \<Rightarrow> claim \<Rightarrow> (string \<times> PayerDenialStats) list" where
  "addDenial rates stats c =
     (let stats1 = (if map_of stats (payer c) = None
                    then AList.update (payer c)
                           \<lparr> payer_d = payer c, deniedUnits = 0, deniedValue = 0, projectedValue = 0 \<rparr> stats
                    else stats)
      in case map_of stats1 (payer c) of
           None \<Rightarrow> stats1
         | Some stat \<Rightarrow>
             let stat1 = stat \<lparr> deniedUnits := deniedUnits stat + units c,
                               deniedValue := deniedValue stat + charge c \<rparr>;
                 stat2 = (case lookup2 rates (payer c) (cpt c) of
                            None \<Rightarrow> stat1
                          | Some rateObj \<Rightarrow>
                              stat1 \<lparr> projectedValue := projectedValue stat1 + units c * expectedRate rateObj \<rparr>)
             in AList.update (payer c) stat2 stats1)"

definition denialStats :: "claim list \<Rightarrow> (string \<times> (string \<times> ReimbursementRate) list) list \<Rightarrow> (string \<times> PayerDenialStats) list" where
  "denialStats claims rates = foldl (addDenial rates) [] (filter (\<lambda>c. \<not> isPaid c) claims)"

definition calculateDenialOpportunity :: "claim list \<Rightarrow> (string \<times> (string \<times> ReimbursementRate) list) list \<Rightarrow> PayerDenialStats list" where
  "calculateDenialOpportunity claims rates = map snd (denialStats claims rates)"

text \<open>
  The wording of the specification for one payer: the sums over the payer's unpaid
  claims, a claim without a rate-table entry adding 0 to the projected value.
\<close>

definition spec_projected :: "(string \<times> (string \<times> ReimbursementRate) list) list \<Rightarrow> claim \<Rightarrow> rat" where
  "spec_projected rates c =
     (case lookup2 rates (payer c) (cpt c) of None \<Rightarrow> 0 | Some r \<Rightarrow> units c * expectedRate r)"

definition spec_denial :: "claim list \<Rightarrow> (string \<times> (string \<times> ReimbursementRate) list) list \<Rightarrow> string \<Rightarrow> PayerDenialStats" where
  "spec_denial claims rates p =
     (let cs = filter (\<lambda>c. \<not> isPaid c \<and> payer c = p) claims
      in \<lparr> payer_d = p,
           deniedUnits = sum_list (map units cs),
           deniedValue = sum_list (map charge cs),
           projectedValue = sum_list (map (spec_projected rates) cs) \<rparr>)"

section \<open>Patient analytics\<close>

record PatientStat =
  patientName_s :: string
  patientId_s :: string
  totalVisits :: nat
  totalRevenue :: rat
  lastVisit :: "jsdate option"
  payer_s :: string

text \<open>
  The body of the first \<^verbatim>\<open>forEach\<close>. Two dates are compared by their time values.
\<close>

definition addPatient :: "host \<Rightarrow> (string \<times> PatientStat) list \<Rightarrow> claim \<Rightarrow> (string \<times> PatientStat) list" where
  "addPatient h patients c =
     (let patients1 = (if map_of patients (patientId c) = None
                       then AList.update (patientId c)
                              \<lparr> patientName_s = patientName c, patientId_s = patientId c, totalVisits = 0,
                                totalRevenue = 0, lastVisit = None, payer_s = payer c \<rparr> patients
                       else patients)
      in case map_of patients1 (patientId c) of
           None \<Rightarrow> patients1
         | Some p \<Rightarrow>
             let p1 = p \<lparr> totalRevenue := totalRevenue p + paid c \<rparr>;
                 p2 = (case dos c of
                         None \<Rightarrow> p1
                       | Some d \<Rightarrow>
                           (case lastVisit p1 of
                              None \<Rightarrow> p1 \<lparr> lastVisit := Some d \<rparr>
                            | Some l \<Rightarrow> if getTime h l < getTime h d then p1 \<lparr> lastVisit := Some d \<rparr> else p1))
             in AList.update (patientId c) p2 patients1)"

text \<open>
  The key of a visit, \<^verbatim>\<open>`${c.patientId}|${c.dos?.getTime()}`\<close>, the set of keys in
  insertion order, and the count of keys per patient id, the id being read back as the
  part of the key before its first bar. (The counts live in a plain object; property names
  inherited from \<^verbatim>\<open>Object.prototype\<close> are not modelled.)
\<close>

definition visitKey :: "host \<Rightarrow> claim \<Rightarrow> string" where
  "visitKey h c =
     patientId c @ ''|'' @
     (case dos c of None \<Rightarrow> ''undefined'' | Some d \<Rightarrow> numToString h (of_int (getTime h d)))"

definition setAdd :: "string list \<Rightarrow> string \<Rightarrow> string list" where
  "setAdd s k = (if k \<in> set s then s else s @ [k])"

definition countVisit :: "(string \<times> nat) list \<Rightarrow> string \<Rightarrow> (string \<times> nat) list" where
  "countVisit vc key =
     (let pid = hd (splitOn (CHR ''|'') key)
      in AList.update pid ((case map_of vc pid of None \<Rightarrow> 0 | Some n \<Rightarrow> n) + 1) vc)"

definition analyzePatients :: "host \<Rightarrow> claim list \<Rightarrow> PatientStat list" where
  "analyzePatients h claims =
     (let patients = foldl (addPatient h) [] claims;
          distinctVisits = foldl setAdd [] (map (visitKey h) claims);
          visitCounts = foldl countVisit [] distinctVisits
      in map (\<lambda>e. (snd e) \<lparr> totalVisits := (case map_of visitCounts (patientId_s (snd e)) of None \<Rightarrow> 0 | Some n \<Rightarrow> n) \<rparr>)
           patients)"

text \<open>Auxiliary notions for the proofs about the two aggregations.\<close>

definition zeroStat :: "string \<Rightarrow> PayerDenialStats" where
  "zeroStat p = \<lparr> payer_d = p, deniedUnits = 0, deniedValue = 0, projectedValue = 0 \<rparr>"

definition bumpStat :: "(string \<times> (string \<times> ReimbursementRate) list) list \<Rightarrow> PayerDenialStats \<Rightarrow> claim \<Rightarrow> PayerDenialStats" where
  "bumpStat rates s c =
     s \<lparr> deniedUnits := deniedUnits s + units c,
         deniedValue := deniedValue s + charge c,
         projectedValue := projectedValue s + spec_projected rates c \<rparr>"

section \<open>parseExcelReport\<close>

text \<open>
  The spreadsheet container is decoded by an external library; the model starts from the
  grid \<^verbatim>\<open>rows\<close> it returns, a list of rows of cells.
\<close>

definition isStr :: "cell \<Rightarrow> bool" where
  "isStr c = (case c of Str s \<Rightarrow> True | _ \<Rightarrow> False)"

text \<open>\<^verbatim>\<open>row[i]\<close> for an index read from the header map (\<open>None\<close> is \<^verbatim>\<open>undefined\<close>).\<close>

definition cellAt :: "cell list \<Rightarrow> nat option \<Rightarrow> cell" where
  "cellAt row i = (case i of None \<Rightarrow> Undefined | Some k \<Rightarrow> if k < length row then row ! k else Undefined)"

text \<open>\<^verbatim>\<open>row.join(' ')\<close>: \<^verbatim>\<open>null\<close> and \<^verbatim>\<open>undefined\<close> elements give the empty string.\<close>

definition joinPiece :: "host \<Rightarrow> cell \<Rightarrow> string" where
  "joinPiece h c = (case c of Null \<Rightarrow> [] | Undefined \<Rightarrow> [] | _ \<Rightarrow> cellString h c)"

fun joinWith :: "string \<Rightarrow> string list \<Rightarrow> string" where
  "joinWith sep [] = []"
| "joinWith sep [x] = x"
| "joinWith sep (x # y # ys) = x @ sep @ joinWith sep (y # ys)"

definition rowText :: "host \<Rightarrow> cell list \<Rightarrow> string" where
  "rowText h row = toLowerCase (joinWith '' '' (map (joinPiece h) row))"

text \<open>
  \<^verbatim>\<open>s.replace(new RegExp(pat, 'i'), '')\<close> for a pattern of plain characters, and
  \<^verbatim>\<open>s.replace(':', '')\<close>: the first occurrence is removed.
\<close>

fun removeFirstCI :: "string \<Rightarrow> string \<Rightarrow> string" where
  "removeFirstCI pat [] = []"
| "removeFirstCI pat (c # cs) =
     (if startsWith (toLowerCase (c # cs)) (toLowerCase pat) then drop (length pat) (c # cs)
      else c # removeFirstCI pat cs)"

fun removeFirstChar :: "char \<Rightarrow> string \<Rightarrow> string" where
  "removeFirstChar x [] = []"
| "removeFirstChar x (c # cs) = (if c = x then cs else c # removeFirstChar x cs)"

text \<open>The header row: the first row with a string cell that reads \<^verbatim>\<open>date of service\<close> or \<^verbatim>\<open>dos\<close>.\<close>

definition isHeaderCell :: "cell \<Rightarrow> bool" where
  "isHeaderCell cell =
     (case cell of
        Str s \<Rightarrow> (let c = trim (toLowerCase s) in c = ''date of service'' \<or> c = ''dos'')
      | _ \<Rightarrow> False)"

fun findHeaderRow :: "cell list list \<Rightarrow> nat option" where
  "findHeaderRow [] = None"
| "findHeaderRow (row # rows) =
     (if list_ex isHeaderCell row then Some 0 else map_option Suc (findHeaderRow rows))"

text \<open>\<^verbatim>\<open>headerMap\<close>: a later column of the same name replaces an earlier one.\<close>

definition headerStep :: "(string \<times> nat) list \<Rightarrow> cell \<times> nat \<Rightarrow> (string \<times> nat) list" where
  "headerStep m ci =
     (case fst ci of
        Str s \<Rightarrow> if trim s \<noteq> [] then AList.update (toLowerCase (trim s)) (snd ci) m else m
      | _ \<Rightarrow> m)"

definition headerMapOf :: "cell list \<Rightarrow> (string \<times> nat) list" where
  "headerMapOf headerRow = foldl headerStep [] (zip headerRow [0..<length headerRow])"

subsection \<open>The payment report\<close>

text \<open>
  One pass of the loop body: the provider context after the row, and the claim pushed if
  any.
\<close>

definition paymentProvider :: "string \<Rightarrow> cell list \<Rightarrow> string" where
  "paymentProvider currentProvider row =
     (case find (\<lambda>c. case c of Str s \<Rightarrow> str_includes (toLowerCase s) ''provider name:'' | _ \<Rightarrow> False) row of
        Some (Str s) \<Rightarrow>
          (let v = trim (removeFirstCI ''provider name:'' s) in if v \<noteq> [] then v else currentProvider)
      | _ \<Rightarrow> currentProvider)"

definition paymentClaim :: "host \<Rightarrow> (string \<times> nat) list \<Rightarrow> string \<Rightarrow> int \<Rightarrow> cell list \<Rightarrow> claim option" where
  "paymentClaim h headerMap currentProvider idCounter row =
     (let dosVal = (case map_of headerMap ''dos'' of None \<Rightarrow> Null | Some i \<Rightarrow> cellAt row (Some i));
          cptVal = (case map_of headerMap ''cpt'' of None \<Rightarrow> Null | Some i \<Rightarrow> cellAt row (Some i))
      in if truthy dosVal \<and> truthy cptVal then
           (if (case map_of headerMap ''desc.'' of
                  None \<Rightarrow> False
                | Some descIdx \<Rightarrow> str_includes (toLowerCase (cellString h (cellAt row (Some descIdx)))) ''adj'')
            then None
            else
              let pd = \<bar>normalizeMoney (cellAt row (map_of headerMap ''applied payments''))\<bar>;
                  patName = (case map_of headerMap ''patient name'' of
                               None \<Rightarrow> ''Unknown'' | Some i \<Rightarrow> cellString h (cellAt row (Some i)));
                  patId = (case map_of headerMap ''patient id'' of
                             None \<Rightarrow> ''Unknown'' | Some i \<Rightarrow> cellString h (cellAt row (Some i)));
                  py = (case map_of headerMap ''payer'' of
                          None \<Rightarrow> ''Unknown Payer''
                        | Some i \<Rightarrow> normalizePayerName (cellString h (cellAt row (Some i))));
                  d = parseDOS h dosVal;
                  c = toUpperCase (trim (cellString h cptVal))
              in Some \<lparr> claim_id = idCounter,
                        provider = (if currentProvider \<noteq> [] then currentProvider else ''Unknown Provider''),
                        cpt = c,
                        codeType = determineCodeType c,
                        units = 1,
                        charge = 0,
                        paid = pd,
                        patientId = patId,
                        patientName = patName,
                        payer = py,
                        dos = d,
                        dateSort = (case d of None \<Rightarrow> 0 | Some t \<Rightarrow> getTime h t),
                        isPaid = (1 / 100 < pd) \<rparr>)
         else None)"

fun paymentRows :: "host \<Rightarrow> (string \<times> nat) list \<Rightarrow> string \<Rightarrow> int \<Rightarrow> cell list list \<Rightarrow> claim list" where
  "paymentRows h headerMap currentProvider idCounter [] = []"
| "paymentRows h headerMap currentProvider idCounter (row # rows) =
     (if list_all (\<lambda>cell. cell = Str []) row then paymentRows h headerMap currentProvider idCounter rows
      else if str_includes (rowText h row) ''provider name:''
      then paymentRows h headerMap (paymentProvider currentProvider row) idCounter rows
      else
        (case paymentClaim h headerMap currentProvider idCounter row of
           None \<Rightarrow> paymentRows h headerMap currentProvider idCounter rows
         | Some c \<Rightarrow> c # paymentRows h headerMap currentProvider (idCounter + 1) rows))"

subsection \<open>The visit report\<close>

record patientInfo =
  Patient_Name :: "string option"
  Patient_ID :: "string option"
  Insurance :: "string option"
  Provider :: "string option"

definition emptyInfo :: patientInfo where
  "emptyInfo = \<lparr> Patient_Name = None, Patient_ID = None, Insurance = None, Provider = None \<rparr>"

text \<open>The \<^verbatim>\<open>while\<close> loop of \<^verbatim>\<open>findValueByKeyword\<close>: the next cell that is not empty.\<close>

fun nextValue :: "host \<Rightarrow> cell list \<Rightarrow> string" where
  "nextValue h [] = []"
| "nextValue h (c # cs) =
     (if c \<noteq> Str [] \<and> c \<noteq> Null \<and> c \<noteq> Undefined then trim (cellString h c) else nextValue h cs)"

fun findValueFrom :: "host \<Rightarrow> string \<Rightarrow> cell list \<Rightarrow> string" where
  "findValueFrom h keyword [] = []"
| "findValueFrom h keyword (c # cs) =
     (case c of
        Str s \<Rightarrow>
          if str_includes (toLowerCase s) (removeFirstChar (CHR '':'') (toLowerCase keyword)) then
            (let potentialValue = trim (removeFirstChar (CHR '':'') (removeFirstCI keyword s))
             in if potentialValue \<noteq> [] then potentialValue else nextValue h cs)
          else findValueFrom h keyword cs
      | _ \<Rightarrow> findValueFrom h keyword cs)"

definition findValueByKeyword :: "host \<Rightarrow> cell list \<Rightarrow> string \<Rightarrow> string" where
  "findValueByKeyword h row keyword = findValueFrom h keyword row"

definition cellStartsWith :: "string \<Rightarrow> cell \<Rightarrow> bool" where
  "cellStartsWith p c = (case c of Str s \<Rightarrow> startsWith (toLowerCase s) p | _ \<Rightarrow> False)"

definition rowSkipped :: "host \<Rightarrow> cell list \<Rightarrow> bool" where
  "rowSkipped h row =
     (list_all (\<lambda>cell. cell = Str [] \<or> cell = Null) row
      \<or> str_includes (rowText h row) ''sub total'' \<or> str_includes (rowText h row) ''page:'')"

definition isPatientRow :: "cell list \<Rightarrow> bool" where
  "isPatientRow row = list_ex (cellStartsWith ''patient:'') row"

definition isInsuranceRow :: "cell list \<Rightarrow> bool" where
  "isInsuranceRow row = list_ex (cellStartsWith ''insurance:'') row"

text \<open>
  \<^verbatim>\<open>/\d{1,2}\/\d{1,2}\/\d{4}/.test(s)\<close>: the pattern may start anywhere in the text. Each
  helper returns the texts that can remain after its part of the pattern.
\<close>

definition eatDigits12 :: "string \<Rightarrow> string list" where
  "eatDigits12 s =
     (case s of
        [] \<Rightarrow> []
      | a # r \<Rightarrow>
          if isDigit a then r # (case r of [] \<Rightarrow> [] | b # r' \<Rightarrow> if isDigit b then [r'] else [])
          else [])"

definition eatSlash :: "string \<Rightarrow> string list" where
  "eatSlash s = (case s of [] \<Rightarrow> [] | a # r \<Rightarrow> if a = CHR ''/'' then [r] else [])"

definition eatDigits4 :: "string \<Rightarrow> string list" where
  "eatDigits4 s = (if 4 \<le> length s \<and> list_all isDigit (take 4 s) then [drop 4 s] else [])"

definition usDateAt :: "string \<Rightarrow> bool" where
  "usDateAt s =
     (concat (map eatDigits4 (concat (map eatSlash (concat (map eatDigits12
        (concat (map eatSlash (eatDigits12 s)))))))) \<noteq> [])"

fun usDateIn :: "string \<Rightarrow> bool" where
  "usDateIn [] = False"
| "usDateIn (c # cs) = (usDateAt (c # cs) \<or> usDateIn cs)"

definition visitClaim :: "host \<Rightarrow> string \<Rightarrow> (string \<times> nat) list \<Rightarrow> patientInfo \<Rightarrow> int \<Rightarrow> cell list \<Rightarrow> claim option" where
  "visitClaim h fallbackProvider headerMap currentPatientInfo idCounter row =
     (let dosIndex = map_of headerMap ''date of service'';
          cptIndex = map_of headerMap ''cpt'';
          dateOfService = (if dosIndex \<noteq> None \<and> truthy (cellAt row dosIndex)
                           then trim (cellString h (cellAt row dosIndex)) else []);
          cptCode = (if cptIndex \<noteq> None \<and> truthy (cellAt row cptIndex)
                     then trim (cellString h (cellAt row cptIndex)) else [])
      in if (usDateIn dateOfService \<or> matchISO dateOfService \<noteq> None) \<and> cptCode \<noteq> [] then
           (let u = floatOrZero h (cellAt row (map_of headerMap ''days or units''));
                charges = normalizeMoney (cellAt row (map_of headerMap ''charges''));
                pd = \<bar>normalizeMoney (cellAt row (map_of headerMap ''insurance payment''))\<bar>;
                prov = orElse (Provider currentPatientInfo)
                         (if fallbackProvider \<noteq> [] then fallbackProvider else ''Unknown Provider'');
                py = normalizePayerName (orElse (Insurance currentPatientInfo) ''Unknown Payer'');
                d = parseDOS h (Str dateOfService)
            in Some \<lparr> claim_id = idCounter,
                      provider = prov,
                      cpt = toUpperCase cptCode,
                      codeType = determineCodeType cptCode,
                      units = u,
                      charge = charges,
                      paid = pd,
                      patientId = orElse (Patient_ID currentPatientInfo) ''Unknown ID'',
                      patientName = orElse (Patient_Name currentPatientInfo) ''Unknown Patient'',
                      payer = py,
                      dos = d,
                      dateSort = (case d of None \<Rightarrow> 0 | Some t \<Rightarrow> getTime h t),
                      isPaid = (1 / 100 < pd) \<rparr>)
         else None)"

fun visitRows :: "host \<Rightarrow> string \<Rightarrow> (string \<times> nat) list \<Rightarrow> patientInfo \<Rightarrow> int \<Rightarrow> cell list list \<Rightarrow> claim list" where
  "visitRows h fb headerMap info idCounter [] = []"
| "visitRows h fb headerMap info idCounter (row # rows) =
     (if rowSkipped h row then visitRows h fb headerMap info idCounter rows
      else if isPatientRow row then
        visitRows h fb headerMap
          \<lparr> Patient_Name = Some (findValueByKeyword h row ''Patient:''),
            Patient_ID = Some (findValueByKeyword h row ''Patient ID:''),
            Insurance = None, Provider = None \<rparr>
          idCounter rows
      else if isInsuranceRow row then
        visitRows h fb headerMap
          (info \<lparr> Insurance := Some (findValueByKeyword h row ''Insurance:''),
                  Provider := Some (findValueByKeyword h row ''Provider:'') \<rparr>)
          idCounter rows
      else
        (case visitClaim h fb headerMap info idCounter row of
           None \<Rightarrow> visitRows h fb headerMap info idCounter rows
         | Some c \<Rightarrow> c # visitRows h fb headerMap info (idCounter + 1) rows))"

definition isPaymentReport :: "cell list \<Rightarrow> bool" where
  "isPaymentReport headerRow = (map_of (headerMapOf headerRow) ''applied payments'' \<noteq> None)"

definition parseExcelReport :: "host \<Rightarrow> cell list list \<Rightarrow> string \<Rightarrow> error + claim list" where
  "parseExcelReport h rows fallbackProvider =
     (case findHeaderRow rows of
        None \<Rightarrow> Inl MissingDOSHeader
      | Some headerRowIndex \<Rightarrow>
          let headerRow = rows ! headerRowIndex;
              headerMap = headerMapOf headerRow;
              rest = drop (headerRowIndex + 1) rows
          in if isPaymentReport headerRow
             then Inr (paymentRows h headerMap fallbackProvider 1 rest)
             else Inr (visitRows h fallbackProvider headerMap emptyInfo 1 rest))"

text \<open>Which of the two layouts \<^const>\<open>parseExcelReport\<close> takes for a grid.\<close>

definition paymentLayout :: "cell list list \<Rightarrow> bool" where
  "paymentLayout rows = (case findHeaderRow rows of None \<Rightarrow> False | Some i \<Rightarrow> isPaymentReport (rows ! i))"

text \<open>
  The part of the data-model invariants that every parser path establishes: the paid
  amount is not negative, the code is in upper case, and the code class is the
  classification of the code.
\<close>

definition claimOK :: "claim \<Rightarrow> bool" where
  "claimOK c = (0 \<le> paid c \<and> toUpperCase (cpt c) = cpt c \<and> codeType c = determineCodeType (cpt c))"

section \<open>Facts about the string primitives\<close>

lemma dropWhile_none: "\<forall>c\<in>set t. \<not> P c \<Longrightarrow> dropWhile P t = t"
  by (cases t) auto

lemma trim_no_space: "\<forall>c\<in>set s. \<not> isSpace c \<Longrightarrow> trim s = s"
  by (simp add: trim_def trimStart_def trimEnd_def dropWhile_none)

lemma splitOn_nosep: "d \<notin> set a \<Longrightarrow> splitOn d a = [a]"
  by (induction a) auto

lemma splitOn_sep: "d \<notin> set a \<Longrightarrow> splitOn d (a @ d # r) = a # splitOn d r"
  by (induction a) auto

lemma splitOn_three:
  "d \<notin> set a \<Longrightarrow> d \<notin> set b \<Longrightarrow> d \<notin> set c \<Longrightarrow> splitOn d (a @ d # b @ d # c) = [a, b, c]"
  by (simp add: splitOn_sep splitOn_nosep)

lemma isDigit_chars: "isDigit c \<Longrightarrow> c \<noteq> CHR ''-'' \<and> c \<noteq> CHR ''/'' \<and> \<not> isSpace c"
  by (auto simp: isDigit_def isSpace_def)

lemma digits_set:
  "list_all isDigit a \<Longrightarrow> CHR ''-'' \<notin> set a \<and> CHR ''/'' \<notin> set a \<and> (\<forall>c\<in>set a. \<not> isSpace c)"
  using isDigit_chars by (auto simp: list_all_iff)

lemma digits_no_space: "list_all isDigit a \<Longrightarrow> \<forall>c\<in>set a. \<not> isSpace c"
  using digits_set by blast

lemma sep_no_space: "\<not> isSpace (CHR ''-'')" "\<not> isSpace (CHR ''/'')"
  by (simp_all add: isSpace_def)

section \<open>The money normalizer\<close>












section \<open>The date normalizer\<close>

lemma matchISO_shape:
  assumes "list_all isDigit a" "list_all isDigit b" "list_all isDigit c"
    and "length a = 4" "length b = 2" "length c = 2"
  shows "matchISO (a @ CHR ''-'' # b @ CHR ''-'' # c) =
           Some (int (digitsVal a), int (digitsVal b), int (digitsVal c))"
  using assms digits_set[of a] digits_set[of b] digits_set[of c]
  by (simp add: matchISO_def splitOn_three)

lemma matchMDY_shape:
  assumes "list_all isDigit a" "list_all isDigit b" "list_all isDigit c"
    and "1 \<le> length a" "length a \<le> 2" "1 \<le> length b" "length b \<le> 2"
    and "2 \<le> length c" "length c \<le> 4"
  shows "matchMDY (a @ CHR ''/'' # b @ CHR ''/'' # c) =
           Some (int (digitsVal a), int (digitsVal b), int (digitsVal c))"
  using assms digits_set[of a] digits_set[of b] digits_set[of c]
  by (simp add: matchMDY_def splitOn_three)

lemma matchISO_no_hyphen: "CHR ''-'' \<notin> set s \<Longrightarrow> matchISO s = None"
  by (simp add: matchISO_def splitOn_nosep)

lemma newDate_valid:
  assumes "100 \<le> y" "1 \<le> m" "m \<le> 12" "1 \<le> d" "d \<le> daysInMonth y m"
  shows "newDate y (m - 1) d = LocalDate y m d"
proof -
  have "(m - 1) div 12 = 0" "(m - 1) mod 12 = m - 1" using assms by auto
  then show ?thesis using assms by (simp add: newDate_def rollDay.simps[of y m d])
qed

lemma parseDOS_iso:
  assumes "list_all isDigit a" "list_all isDigit b" "list_all isDigit c"
    and "length a = 4" "length b = 2" "length c = 2"
  shows "parseDOS h (Str (a @ CHR ''-'' # b @ CHR ''-'' # c)) =
           Some (newDate (int (digitsVal a)) (int (digitsVal b) - 1) (int (digitsVal c)))"
proof -
  let ?s = "a @ CHR ''-'' # b @ CHR ''-'' # c"
  have "\<forall>x\<in>set ?s. \<not> isSpace x"
    using digits_no_space[OF assms(1)] digits_no_space[OF assms(2)] digits_no_space[OF assms(3)]
    by (simp add: sep_no_space ball_Un)
  then have t: "trim ?s = ?s" by (rule trim_no_space)
  show ?thesis
    by (simp add: parseDOS_def t matchISO_shape[OF assms])
qed

lemma parseDOS_mdy:
  assumes "list_all isDigit a" "list_all isDigit b" "list_all isDigit c"
    and "1 \<le> length a" "length a \<le> 2" "1 \<le> length b" "length b \<le> 2"
    and "2 \<le> length c" "length c \<le> 4"
  shows "parseDOS h (Str (a @ CHR ''/'' # b @ CHR ''/'' # c)) =
           Some (newDate (if int (digitsVal c) < 100 then int (digitsVal c) + 2000 else int (digitsVal c))
                   (int (digitsVal a) - 1) (int (digitsVal b)))"
proof -
  let ?s = "a @ CHR ''/'' # b @ CHR ''/'' # c"
  have ns: "\<forall>x\<in>set ?s. \<not> isSpace x"
    using digits_no_space[OF assms(1)] digits_no_space[OF assms(2)] digits_no_space[OF assms(3)]
    by (simp add: sep_no_space ball_Un)
  have nh: "CHR ''-'' \<notin> set ?s"
    using digits_set[OF assms(1)] digits_set[OF assms(2)] digits_set[OF assms(3)] by simp
  from ns have t: "trim ?s = ?s" by (rule trim_no_space)
  show ?thesis
    by (simp add: parseDOS_def t matchMDY_shape[OF assms] matchISO_no_hyphen[OF nh])
qed

lemma parseDOS_fallback:
  assumes "s \<noteq> []" "matchISO (trim s) = None" "matchMDY (trim s) = None"
  shows "parseDOS h (Str s) = map_option Instant (dateParse h (trim s))"
  using assms by (simp add: parseDOS_def split: option.splits)

text \<open>
  Claim C7, as the claim states it, fails: the day of the month written in the input is
  not always the day of the month of the result. \<^verbatim>\<open>"2024-02-31"\<close> matches the ISO
  pattern, and \<^verbatim>\<open>new Date(2024, 1, 31)\<close> is the 2nd of March 2024.
\<close>

theorem parseDOS_day_not_preserved:
  "parseDOS sampleHost (Str ''2024-02-31'') = Some (LocalDate 2024 3 2)"
  by code_simp

text \<open>
  Claim C7, amended. The date normalizer never fails. A text of the shape YYYY-MM-DD
  gives \<^verbatim>\<open>new Date(Y, M - 1, D)\<close>; a text of the shape M/D/YY, M/D/YYY or M/D/YYYY gives
  \<^verbatim>\<open>new Date(Y', M - 1, D)\<close> where a year below 100 has 2000 added; when the year is
  at least 100, the month is 1..12 and the day is within the length of that month, the
  date built has exactly that year, month and day (otherwise the constructor rolls the
  surplus over); any other non-empty text is handed, trimmed, to the fallback
  \<^verbatim>\<open>Date.parse\<close>, and the result is unknown exactly when that gives NaN; the empty
  text and \<^verbatim>\<open>undefined\<close> are unknown; \<^verbatim>\<open>"2024-03-05"\<close> and \<^verbatim>\<open>"3/5/24"\<close> both give
  the 5th of March 2024.
\<close>

theorem parseDOS_spec:
  "(list_all isDigit a \<and> list_all isDigit b \<and> list_all isDigit c \<and>
    length a = 4 \<and> length b = 2 \<and> length c = 2 \<longrightarrow>
      parseDOS h (Str (a @ CHR ''-'' # b @ CHR ''-'' # c)) =
        Some (newDate (int (digitsVal a)) (int (digitsVal b) - 1) (int (digitsVal c)))) \<and>
   (list_all isDigit a \<and> list_all isDigit b \<and> list_all isDigit c \<and>
    1 \<le> length a \<and> length a \<le> 2 \<and> 1 \<le> length b \<and> length b \<le> 2 \<and>
    2 \<le> length c \<and> length c \<le> 4 \<longrightarrow>
      parseDOS h (Str (a @ CHR ''/'' # b @ CHR ''/'' # c)) =
        Some (newDate (if int (digitsVal c) < 100 then int (digitsVal c) + 2000 else int (digitsVal c))
                (int (digitsVal a) - 1) (int (digitsVal b)))) \<and>
   (100 \<le> y \<and> 1 \<le> m \<and> m \<le> 12 \<and> 1 \<le> d \<and> d \<le> daysInMonth y m \<longrightarrow>
      newDate y (m - 1) d = LocalDate y m d) \<and>
   (s \<noteq> [] \<and> matchISO (trim s) = None \<and> matchMDY (trim s) = None \<longrightarrow>
      parseDOS h (Str s) = map_option Instant (dateParse h (trim s))) \<and>
   parseDOS h (Str []) = None \<and>
   parseDOS h Undefined = None \<and>
   parseDOS h (Str ''2024-03-05'') = Some (LocalDate 2024 3 5) \<and>
   parseDOS h (Str ''3/5/24'') = Some (LocalDate 2024 3 5)"
proof -
  have d1: "list_all isDigit ''2024''" "list_all isDigit ''03''" "list_all isDigit ''05''"
    "list_all isDigit ''3''" "list_all isDigit ''5''" "list_all isDigit ''24''"
    by (simp_all add: isDigit_def)
  have v: "digitsVal ''2024'' = 2024" "digitsVal ''03'' = 3" "digitsVal ''05'' = 5"
    "digitsVal ''3'' = 3" "digitsVal ''5'' = 5" "digitsVal ''24'' = 24"
    by (simp_all add: digitsVal_def digitVal_def)
  have nd: "newDate 2024 (3 - 1) 5 = LocalDate 2024 3 5"
    by (rule newDate_valid) (simp_all add: daysInMonth_def)
  have x1: "parseDOS h (Str ''2024-03-05'') = Some (LocalDate 2024 3 5)"
    using parseDOS_iso[OF d1(1) d1(2) d1(3), of h] nd by (simp add: v)
  have x2: "parseDOS h (Str ''3/5/24'') = Some (LocalDate 2024 3 5)"
    using parseDOS_mdy[OF d1(4) d1(5) d1(6), of h] nd by (simp add: v)
  have x3: "parseDOS h (Str []) = None" "parseDOS h Undefined = None"
    by (simp_all add: parseDOS_def)
  from x1 x2 x3 parseDOS_iso[of a b c h] parseDOS_mdy[of a b c h] newDate_valid[of y m d]
    parseDOS_fallback[of s h]
  show ?thesis by blast
qed

theorem parseDOS_spec_witness:
  "(list_all isDigit ''2023'' \<and> list_all isDigit ''11'' \<and> list_all isDigit ''30'' \<and>
    length ''2023'' = 4 \<and> length ''11'' = 2 \<and> length ''30'' = 2) \<and>
   parseDOS sampleHost (Str (''2023'' @ CHR ''-'' # ''11'' @ CHR ''-'' # ''30'')) =
     Some (newDate (int (digitsVal ''2023'')) (int (digitsVal ''11'') - 1) (int (digitsVal ''30''))) \<and>
   (list_all isDigit ''7'' \<and> list_all isDigit ''4'' \<and> list_all isDigit ''99'' \<and>
    1 \<le> length ''7'' \<and> length ''7'' \<le> 2 \<and> 1 \<le> length ''4'' \<and> length ''4'' \<le> 2 \<and>
    2 \<le> length ''99'' \<and> length ''99'' \<le> 4) \<and>
   parseDOS sampleHost (Str (''7'' @ CHR ''/'' # ''4'' @ CHR ''/'' # ''99'')) =
     Some (newDate (if int (digitsVal ''99'') < 100 then int (digitsVal ''99'') + 2000 else int (digitsVal ''99''))
             (int (digitsVal ''7'') - 1) (int (digitsVal ''4''))) \<and>
   ((100::int) \<le> 2023 \<and> (1::int) \<le> 11 \<and> (11::int) \<le> 12 \<and> (1::int) \<le> 30 \<and> 30 \<le> daysInMonth 2023 11) \<and>
   newDate 2023 (11 - 1) 30 = LocalDate 2023 11 30 \<and>
   (''soon'' \<noteq> [] \<and> matchISO (trim ''soon'') = None \<and> matchMDY (trim ''soon'') = None) \<and>
   parseDOS sampleHost (Str ''soon'') = map_option Instant (dateParse sampleHost (trim ''soon''))"
proof -
  have h1: "list_all isDigit ''2023'' \<and> list_all isDigit ''11'' \<and> list_all isDigit ''30'' \<and>
    length ''2023'' = 4 \<and> length ''11'' = 2 \<and> length ''30'' = 2"
    by (simp add: isDigit_def)
  have h2: "list_all isDigit ''7'' \<and> list_all isDigit ''4'' \<and> list_all isDigit ''99'' \<and>
    1 \<le> length ''7'' \<and> length ''7'' \<le> 2 \<and> 1 \<le> length ''4'' \<and> length ''4'' \<le> 2 \<and>
    2 \<le> length ''99'' \<and> length ''99'' \<le> 4"
    by (simp add: isDigit_def)
  have h3: "(100::int) \<le> 2023 \<and> (1::int) \<le> 11 \<and> (11::int) \<le> 12 \<and> (1::int) \<le> 30 \<and> 30 \<le> daysInMonth 2023 11"
    by (simp add: daysInMonth_def)
  have h4: "''soon'' \<noteq> [] \<and> matchISO (trim ''soon'') = None \<and> matchMDY (trim ''soon'') = None"
    by code_simp
  from parseDOS_spec[of "''2023''" "''11''" "''30''" sampleHost 2023 11 30 "''soon''"]
    parseDOS_spec[of "''7''" "''4''" "''99''" sampleHost 2023 11 30 "''soon''"] h1 h2 h3 h4
  show ?thesis by blast
qed

section \<open>The CSV tokenizer and the export escaping\<close>

lemma quoted_run:
  "rest = [] \<or> hd rest \<noteq> DQ \<Longrightarrow>
   csvLoop d (concat (map (\<lambda>c. if c = DQ then [DQ, DQ] else [c]) s) @ DQ # rest) f r rs True
     = csvLoop d rest (f @ s) r rs False"
proof (induction s arbitrary: f)
  case Nil
  then show ?case by (cases rest) auto
next
  case (Cons x xs)
  then show ?case by simp
qed

lemma plain_run:
  "DQ \<notin> set s \<Longrightarrow> d \<notin> set s \<Longrightarrow> LF \<notin> set s \<Longrightarrow>
   csvLoop d (s @ rest) f r rs False = csvLoop d rest (f @ filter (\<lambda>c. c \<noteq> CR) s) r rs False"
  by (induction s arbitrary: f) auto

text \<open>
  Claim C8, as the claim states it, fails on two kinds of field. A field with a carriage
  return and no comma, quote or line feed is exported without quotes, and the tokenizer
  drops carriage returns outside quotes; the empty field is exported as the empty text,
  in which the tokenizer finds no row at all.
\<close>

theorem csv_roundtrip_fails:
  "parseCSVLine (escape [CHR ''a'', CR, CHR ''b'']) (CHR '','') = [[''ab'']] \<and>
   parseCSVLine (escape []) (CHR '','') = []"
  by (simp add: parseCSVLine_def escape_def)

text \<open>
  Claim C8, amended. Escaping a field and tokenizing the result with the comma as the
  delimiter gives back one row holding exactly that field if and only if the field
  contains a comma, a quote or a line feed (it is then quoted), or it is non-empty and
  free of carriage returns.
\<close>

theorem csv_roundtrip:
  "parseCSVLine (escape s) (CHR '','') = [[s]] \<longleftrightarrow>
     (CHR '','' \<in> set s \<or> DQ \<in> set s \<or> LF \<in> set s \<or> (s \<noteq> [] \<and> CR \<notin> set s))"
proof (cases "CHR '','' \<in> set s \<or> DQ \<in> set s \<or> LF \<in> set s")
  case True
  then have ne: "s \<noteq> []" by auto
  have "parseCSVLine (escape s) (CHR '','') = csvLoop (CHR '','') [] ([] @ s) [] [] False"
    using True quoted_run[of "[]" "CHR '',''" s "[]" "[]" "[]"]
    by (simp add: parseCSVLine_def escape_def)
  then have "parseCSVLine (escape s) (CHR '','') = [[s]]" using ne by simp
  then show ?thesis using True by blast
next
  case False
  then have "parseCSVLine (escape s) (CHR '','') =
      csvLoop (CHR '','') [] (filter (\<lambda>c. c \<noteq> CR) s) [] [] False"
    using plain_run[of s "CHR '',''" "[]" "[]" "[]" "[]"] by (simp add: parseCSVLine_def escape_def)
  moreover have "filter (\<lambda>c. c \<noteq> CR) s = s \<longleftrightarrow> CR \<notin> set s"
    by (auto simp: filter_id_conv)
  ultimately show ?thesis using False by auto
qed

theorem csv_roundtrip_witness:
  "parseCSVLine (escape (''Smith, '' @ [DQ] @ ''Jo'' @ [DQ, CR, LF] @ ''MD'')) (CHR '','') =
     [[''Smith, '' @ [DQ] @ ''Jo'' @ [DQ, CR, LF] @ ''MD'']] \<and>
   parseCSVLine (escape ''99213'') (CHR '','') = [[''99213'']]"
proof -
  have a: "parseCSVLine (escape (''Smith, '' @ [DQ] @ ''Jo'' @ [DQ, CR, LF] @ ''MD'')) (CHR '','') =
     [[''Smith, '' @ [DQ] @ ''Jo'' @ [DQ, CR, LF] @ ''MD'']]"
    by (rule iffD2[OF csv_roundtrip]) simp
  have b: "parseCSVLine (escape ''99213'') (CHR '','') = [[''99213'']]"
    by (rule iffD2[OF csv_roundtrip]) simp
  from a b show ?thesis by (rule conjI)
qed

section \<open>The delimited-text parser\<close>

lemma indexOf_none: "indexOf ys x = - 1 \<longleftrightarrow> x \<notin> set ys"
proof (induction ys)
  case Nil show ?case by simp
next
  case (Cons y ys)
  have nn: "0 \<le> indexOf zs x \<or> indexOf zs x = - 1" for zs
    by (induction zs) (auto simp: Let_def)
  show ?case using Cons nn[of ys] by (auto simp: Let_def)
qed

lemma findIdx_none: "findIdx header cands = - 1 \<longleftrightarrow> set header \<inter> set cands = {}"
  by (induction cands) (auto simp: Let_def indexOf_none)

lemma trim_Nil: "trim [] = []"
  by (simp add: trim_def trimStart_def trimEnd_def)

lemma csvClaim_kept: "csvClaim h fb cols n row \<noteq> None \<longleftrightarrow> spec_rowKept (iCPT cols) row"
  by (auto simp: csvClaim_def spec_rowKept_def Let_def trim_Nil split: option.splits)

lemma csvClaim_cpt:
  "csvClaim h fb cols n row = Some c \<Longrightarrow> cpt c = toUpperCase (trim (the (csvAt row (iCPT cols))))"
  by (auto simp: csvClaim_def Let_def split: option.splits if_splits)

lemma csvRows_cpt:
  "map cpt (csvRows h fb cols n rows) =
     map (\<lambda>r. toUpperCase (trim (the (csvAt r (iCPT cols))))) (filter (spec_rowKept (iCPT cols)) rows)"
proof (induction rows arbitrary: n)
  case Nil
  show ?case by simp
next
  case (Cons row rows)
  show ?case
  proof (cases "csvClaim h fb cols n row")
    case None
    then have "\<not> spec_rowKept (iCPT cols) row" using csvClaim_kept[of h fb cols n row] by simp
    with None Cons show ?thesis by simp
  next
    case (Some c)
    then have "spec_rowKept (iCPT cols) row" using csvClaim_kept[of h fb cols n row] by simp
    with Some Cons csvClaim_cpt[OF Some] show ?thesis by simp
  qed
qed

lemma csvRows_ids:
  "map claim_id (csvRows h fb cols n rows) =
     map (\<lambda>k. n + int k) [0 ..< length (csvRows h fb cols n rows)]"
proof (induction rows arbitrary: n)
  case Nil
  show ?case by simp
next
  case (Cons row rows)
  show ?case
  proof (cases "csvClaim h fb cols n row")
    case None
    with Cons show ?thesis by simp
  next
    case (Some c)
    have i: "claim_id c = n" using Some by (auto simp: csvClaim_def Let_def split: option.splits if_splits)
    have "map (\<lambda>k. n + int k) [0 ..< Suc m] = n # map (\<lambda>k. n + 1 + int k) [0 ..< m]" for m
      by (simp add: upt_conv_Cons map_Suc_upt[symmetric] del: upt_Suc)
    with Some i Cons[of "n + 1"] show ?thesis by simp
  qed
qed

lemma ids_upt: "map (\<lambda>k. 1 + int k) [0 ..< m] = map int [1 ..< Suc m]"
  by (induction m) simp_all

lemma iCPT_resolve: "iCPT (resolveCols header) = findIdx header [''cpt'', ''procedure code'', ''proc code'']"
  by (simp add: resolveCols_def)

lemma parseClaimsData_short:
  "length (csvRowsOf inp) < 2 \<Longrightarrow> parseClaimsData h inp fb = Inr []"
  by (simp add: parseClaimsData_def csvRowsOf_def Let_def)

lemma parseClaimsData_missing:
  assumes "2 \<le> length (csvRowsOf inp)"
    and "set (csvHeaderOf inp) \<inter> set [''cpt'', ''procedure code'', ''proc code''] = {}"
  shows "parseClaimsData h inp fb = Inl MissingCPTColumn"
proof -
  have "findIdx (csvHeaderOf inp) [''cpt'', ''procedure code'', ''proc code''] = - 1"
    using assms(2) by (simp only: findIdx_none)
  then show ?thesis using assms(1)
    by (simp add: parseClaimsData_def csvRowsOf_def csvHeaderOf_def Let_def iCPT_resolve del: findIdx.simps)
qed

lemma parseClaimsData_rows:
  assumes "2 \<le> length (csvRowsOf inp)"
    and "set (csvHeaderOf inp) \<inter> set [''cpt'', ''procedure code'', ''proc code''] \<noteq> {}"
  shows "parseClaimsData h inp fb =
           Inr (csvRows h fb (resolveCols (csvHeaderOf inp)) 1 (tl (csvRowsOf inp)))"
proof -
  have "findIdx (csvHeaderOf inp) [''cpt'', ''procedure code'', ''proc code''] \<noteq> - 1"
    using assms(2) by (simp only: findIdx_none not_False_eq_True)
  then show ?thesis using assms(1)
    by (simp add: parseClaimsData_def csvRowsOf_def csvHeaderOf_def Let_def iCPT_resolve del: findIdx.simps)
qed

text \<open>
  Claim C5, as the claim states it, fails: the hard error is not raised for every text
  whose header lacks a procedure-code column. A text of fewer than two rows returns the
  empty list before the header is looked at.
\<close>

theorem parseClaimsData_header_only:
  "set (csvHeaderOf ''patient,units'') \<inter> set [''cpt'', ''procedure code'', ''proc code''] = {} \<and>
   parseClaimsData sampleHost ''patient,units'' ''Dr X'' = Inr []"
  by code_simp

text \<open>
  Claim C5, amended. A text that tokenizes to fewer than two rows gives the empty list,
  whatever its header. With two rows or more, the hard error for the missing
  procedure-code column is raised exactly when the resolved header (each cell of the first
  row in lower case and trimmed) contains none of \<^verbatim>\<open>cpt\<close>, \<^verbatim>\<open>procedure code\<close>,
  \<^verbatim>\<open>proc code\<close>; otherwise the parser returns normally. The claims returned are then as
  many as the data rows whose procedure-code cell exists and is non-empty after trimming,
  every other row being skipped, they are numbered 1, 2, ... in that order, and each holds
  the trimmed cell of its row in upper case (for cells without the two letters whose upper
  case lies beyond code unit 255).
\<close>

theorem parseClaimsData_spec:
  "(length (csvRowsOf inp) < 2 \<longrightarrow> parseClaimsData h inp fb = Inr []) \<and>
   (2 \<le> length (csvRowsOf inp) \<and>
    set (csvHeaderOf inp) \<inter> set [''cpt'', ''procedure code'', ''proc code''] = {} \<longrightarrow>
      parseClaimsData h inp fb = Inl MissingCPTColumn) \<and>
   (2 \<le> length (csvRowsOf inp) \<and>
    set (csvHeaderOf inp) \<inter> set [''cpt'', ''procedure code'', ''proc code''] \<noteq> {} \<longrightarrow>
      (\<exists>cs. parseClaimsData h inp fb = Inr cs \<and>
            length cs =
              length (filter (spec_rowKept (findIdx (csvHeaderOf inp) [''cpt'', ''procedure code'', ''proc code'']))
                        (tl (csvRowsOf inp))) \<and>
            map claim_id cs = map int [1 ..< Suc (length cs)] \<and>
            (list_all (\<lambda>r. list_all (\<lambda>c. \<not> wideUpper c)
                              (the (csvAt r (findIdx (csvHeaderOf inp) [''cpt'', ''procedure code'', ''proc code'']))))
               (filter (spec_rowKept (findIdx (csvHeaderOf inp) [''cpt'', ''procedure code'', ''proc code'']))
                  (tl (csvRowsOf inp))) \<longrightarrow>
             map cpt cs =
               map (\<lambda>r. toUpperCase (trim (the (csvAt r
                       (findIdx (csvHeaderOf inp) [''cpt'', ''procedure code'', ''proc code''])))))
                 (filter (spec_rowKept (findIdx (csvHeaderOf inp) [''cpt'', ''procedure code'', ''proc code'']))
                    (tl (csvRowsOf inp))))))"
proof -
  let ?i = "findIdx (csvHeaderOf inp) [''cpt'', ''procedure code'', ''proc code'']"
  let ?cs = "csvRows h fb (resolveCols (csvHeaderOf inp)) 1 (tl (csvRowsOf inp))"
  have m: "map cpt ?cs = map (\<lambda>r. toUpperCase (trim (the (csvAt r ?i)))) (filter (spec_rowKept ?i) (tl (csvRowsOf inp)))"
    using csvRows_cpt[of h fb "resolveCols (csvHeaderOf inp)" 1 "tl (csvRowsOf inp)"]
    by (simp only: iCPT_resolve)
  have l: "length ?cs = length (filter (spec_rowKept ?i) (tl (csvRowsOf inp)))"
    using arg_cong[OF m, of length] by (simp only: length_map)
  have n: "map claim_id ?cs = map int [1 ..< Suc (length ?cs)]"
    using csvRows_ids[of h fb "resolveCols (csvHeaderOf inp)" 1 "tl (csvRowsOf inp)"]
    by (simp only: ids_upt)
  have c: "2 \<le> length (csvRowsOf inp) \<and>
      set (csvHeaderOf inp) \<inter> set [''cpt'', ''procedure code'', ''proc code''] \<noteq> {} \<longrightarrow>
      parseClaimsData h inp fb = Inr ?cs"
    using parseClaimsData_rows[of inp h fb] by blast
  from parseClaimsData_short[of inp h fb] parseClaimsData_missing[of inp h fb] c l n m
  show ?thesis by blast
qed

theorem parseClaimsData_spec_witness:
  "length (csvRowsOf ''cpt,units'') < 2 \<and>
   parseClaimsData sampleHost ''cpt,units'' ''Dr X'' = Inr [] \<and>
   (2 \<le> length (csvRowsOf (''patient,units'' @ [LF] @ ''Ann,1'')) \<and>
    set (csvHeaderOf (''patient,units'' @ [LF] @ ''Ann,1'')) \<inter> set [''cpt'', ''procedure code'', ''proc code''] = {}) \<and>
   parseClaimsData sampleHost (''patient,units'' @ [LF] @ ''Ann,1'') ''Dr X'' = Inl MissingCPTColumn \<and>
   (2 \<le> length (csvRowsOf (''units, CPT'' @ [CHR 0xA0, LF] @ ''1,a1'' @ [LF] @ ''2, '' @ [CHR 0xA0, LF] @ ''3'' @ [LF] @ ''4,99213'')) \<and>
    set (csvHeaderOf (''units, CPT'' @ [CHR 0xA0, LF] @ ''1,a1'' @ [LF] @ ''2, '' @ [CHR 0xA0, LF] @ ''3'' @ [LF] @ ''4,99213''))
      \<inter> set [''cpt'', ''procedure code'', ''proc code''] \<noteq> {}) \<and>
   list_all (\<lambda>r. list_all (\<lambda>c. \<not> wideUpper c)
       (the (csvAt r (findIdx (csvHeaderOf (''units, CPT'' @ [CHR 0xA0, LF] @ ''1,a1'' @ [LF] @ ''2, '' @ [CHR 0xA0, LF] @ ''3'' @ [LF] @ ''4,99213''))
                        [''cpt'', ''procedure code'', ''proc code'']))))
     (filter (spec_rowKept (findIdx (csvHeaderOf (''units, CPT'' @ [CHR 0xA0, LF] @ ''1,a1'' @ [LF] @ ''2, '' @ [CHR 0xA0, LF] @ ''3'' @ [LF] @ ''4,99213''))
                              [''cpt'', ''procedure code'', ''proc code'']))
        (tl (csvRowsOf (''units, CPT'' @ [CHR 0xA0, LF] @ ''1,a1'' @ [LF] @ ''2, '' @ [CHR 0xA0, LF] @ ''3'' @ [LF] @ ''4,99213'')))) \<and>
   (\<exists>cs. parseClaimsData sampleHost (''units, CPT'' @ [CHR 0xA0, LF] @ ''1,a1'' @ [LF] @ ''2, '' @ [CHR 0xA0, LF] @ ''3'' @ [LF] @ ''4,99213'') ''Dr X'' = Inr cs \<and>
         length cs = 2 \<and> map claim_id cs = [1, 2] \<and> map cpt cs = [''A1'', ''99213''])"
proof -
  let ?t = "''units, CPT'' @ [CHR 0xA0, LF] @ ''1,a1'' @ [LF] @ ''2, '' @ [CHR 0xA0, LF] @ ''3'' @ [LF] @ ''4,99213''"
  let ?i = "findIdx (csvHeaderOf ?t) [''cpt'', ''procedure code'', ''proc code'']"
  have h1: "length (csvRowsOf ''cpt,units'') < 2" by code_simp
  have h2: "2 \<le> length (csvRowsOf (''patient,units'' @ [LF] @ ''Ann,1'')) \<and>
    set (csvHeaderOf (''patient,units'' @ [LF] @ ''Ann,1'')) \<inter> set [''cpt'', ''procedure code'', ''proc code''] = {}"
    by code_simp
  have h3: "2 \<le> length (csvRowsOf ?t) \<and>
    set (csvHeaderOf ?t) \<inter> set [''cpt'', ''procedure code'', ''proc code''] \<noteq> {}"
    by code_simp
  have h4: "list_all (\<lambda>r. list_all (\<lambda>c. \<not> wideUpper c) (the (csvAt r ?i)))
     (filter (spec_rowKept ?i) (tl (csvRowsOf ?t)))"
    by code_simp
  have k: "length (filter (spec_rowKept ?i) (tl (csvRowsOf ?t))) = 2" by code_simp
  have u: "map (\<lambda>r. toUpperCase (trim (the (csvAt r ?i)))) (filter (spec_rowKept ?i) (tl (csvRowsOf ?t))) =
           [''A1'', ''99213'']"
    by code_simp
  have a: "parseClaimsData sampleHost ''cpt,units'' ''Dr X'' = Inr []"
    using parseClaimsData_spec[of "''cpt,units''" sampleHost "''Dr X''"] h1 by blast
  have b: "parseClaimsData sampleHost (''patient,units'' @ [LF] @ ''Ann,1'') ''Dr X'' = Inl MissingCPTColumn"
    using parseClaimsData_spec[of "''patient,units'' @ [LF] @ ''Ann,1''" sampleHost "''Dr X''"] h2 by blast
  obtain cs where cs: "parseClaimsData sampleHost ?t ''Dr X'' = Inr cs"
      "length cs = length (filter (spec_rowKept ?i) (tl (csvRowsOf ?t)))"
      "map claim_id cs = map int [1 ..< Suc (length cs)]"
      "map cpt cs = map (\<lambda>r. toUpperCase (trim (the (csvAt r ?i)))) (filter (spec_rowKept ?i) (tl (csvRowsOf ?t)))"
    using parseClaimsData_spec[of ?t sampleHost "''Dr X''"] h3 h4 by blast
  have len: "length cs = 2" using cs(2) k by simp
  have ids: "map claim_id cs = [1, 2]" using cs(3) len by (simp add: upt_rec)
  have cp: "map cpt cs = [''A1'', ''99213'']" using cs(4) u by simp
  have e: "\<exists>cs. parseClaimsData sampleHost ?t ''Dr X'' = Inr cs \<and>
         length cs = 2 \<and> map claim_id cs = [1, 2] \<and> map cpt cs = [''A1'', ''99213'']"
    using cs(1) len ids cp by (intro exI[of _ cs] conjI)
  from h1 a h2 b h3 h4 e show ?thesis by blast
qed

section \<open>The rate inference engine\<close>

lemma lookup2_update:
  "lookup2 (AList.update p inner m) p' c =
     (if p' = p then map_of inner c else lookup2 m p' c)"
  by (simp add: lookup2_def update_conv')

lemma lookup2_pushRate:
  "lookup2 (pushRate hist x) p c =
     (if payer x = p \<and> cpt x = c
      then Some ((case lookup2 hist p c of None \<Rightarrow> [] | Some rs \<Rightarrow> rs) @ [roundedRate x])
      else lookup2 hist p c)"
  by (auto simp: pushRate_def Let_def lookup2_update update_conv' lookup2_def split: option.splits)

lemma lookup2_foldl_pushRate:
  "lookup2 (foldl pushRate hist xs) p c =
     (if filter (\<lambda>x. payer x = p \<and> cpt x = c) xs = [] then lookup2 hist p c
      else Some ((case lookup2 hist p c of None \<Rightarrow> [] | Some rs \<Rightarrow> rs)
                 @ map roundedRate (filter (\<lambda>x. payer x = p \<and> cpt x = c) xs)))"
proof (induction xs arbitrary: hist)
  case Nil
  show ?case by simp
next
  case (Cons x xs)
  show ?case
    by (simp add: Cons lookup2_pushRate)
qed

lemma lookup2_pricingHistory:
  "lookup2 (pricingHistory claims) p c =
     (if groupRates claims p c = [] then None else Some (groupRates claims p c))"
proof -
  have f: "filter (\<lambda>x. payer x = p \<and> cpt x = c) (filter qualifies claims) =
           filter (\<lambda>x. qualifies x \<and> payer x = p \<and> cpt x = c) claims"
    by (simp add: conj_commute conj_left_commute)
  have e: "lookup2 [] p c = (None :: rat list option)" by (simp add: lookup2_def)
  show ?thesis
    unfolding pricingHistory_def groupRates_def lookup2_foldl_pushRate f e by simp
qed


lemma update_fresh: "k \<notin> fst ` set al \<Longrightarrow> AList.update k v al = al @ [(k, v)]"
  by (induction al) auto

lemma update_at_end: "k \<notin> fst ` set R \<Longrightarrow> AList.update k v (R @ [(k, w)]) = R @ [(k, v)]"
  by (induction R) auto

lemma map_of_at_end: "k \<notin> fst ` set R \<Longrightarrow> map_of (R @ [(k, w)]) k = Some w"
  by (induction R) auto

lemma foldl_setEntry:
  "p \<notin> fst ` set R \<Longrightarrow> distinct (map fst I @ map fst es) \<Longrightarrow>
   foldl (setEntry p) (R @ [(p, I)]) es =
     R @ [(p, I @ map (\<lambda>e. (fst e, rateEntry p (fst e) (snd e))) es)]"
proof (induction es arbitrary: I)
  case Nil
  show ?case by simp
next
  case (Cons e es)
  have fr: "fst e \<notin> fst ` set I" using Cons.prems(2) by auto
  have st: "setEntry p (R @ [(p, I)]) e = R @ [(p, I @ [(fst e, rateEntry p (fst e) (snd e))])]"
    unfolding setEntry_def map_of_at_end[OF Cons.prems(1)]
    by (simp add: update_at_end[OF Cons.prems(1)] update_fresh[OF fr])
  have d: "distinct (map fst (I @ [(fst e, rateEntry p (fst e) (snd e))]) @ map fst es)"
    using Cons.prems(2) by auto
  show ?case
    using Cons.IH[OF Cons.prems(1) d] by (simp add: st)
qed

lemma setPayer_fresh:
  assumes "fst pe \<notin> fst ` set acc" "distinct (map fst (snd pe))"
  shows "setPayer acc pe = acc @ [entriesOf pe]"
proof -
  have n: "map_of acc (fst pe) = None" using assms(1) by (simp add: map_of_eq_None_iff)
  show ?thesis
    using foldl_setEntry[OF assms(1), of "[]" "snd pe"] assms(2)
    by (simp add: setPayer_def n update_fresh[OF assms(1)] entriesOf_def)
qed

lemma foldl_setPayer:
  "distinct (map fst acc @ map fst hist) \<Longrightarrow> \<forall>pe\<in>set hist. distinct (map fst (snd pe)) \<Longrightarrow>
   foldl setPayer acc hist = acc @ map entriesOf hist"
proof (induction hist arbitrary: acc)
  case Nil
  show ?case by simp
next
  case (Cons pe hist)
  have a: "fst pe \<notin> fst ` set acc" using Cons.prems(1) by auto
  have b: "distinct (map fst (snd pe))" using Cons.prems(2) by simp
  have c: "distinct (map fst (acc @ [entriesOf pe]) @ map fst hist)"
    using Cons.prems(1) by (auto simp: entriesOf_def)
  have d: "\<forall>pe\<in>set hist. distinct (map fst (snd pe))" using Cons.prems(2) by simp
  show ?case
    using Cons.IH[OF c d] by (simp add: setPayer_fresh[OF a b])
qed

lemma wfHist_pushRate: "wfHist hist \<Longrightarrow> wfHist (pushRate hist x)"
  unfolding wfHist_def pushRate_def Let_def
  by (auto simp: distinct_update update_conv' split: option.splits if_splits)

lemma wfHist_foldl: "wfHist hist \<Longrightarrow> wfHist (foldl pushRate hist xs)"
  by (induction xs arbitrary: hist) (auto simp: wfHist_pushRate)

lemma wfHist_pricingHistory: "wfHist (pricingHistory claims)"
  unfolding pricingHistory_def by (rule wfHist_foldl) (simp add: wfHist_def)

lemma calc_as_map: "calculateReimbursementRates claims = map entriesOf (pricingHistory claims)"
proof -
  have w: "wfHist (pricingHistory claims)" by (rule wfHist_pricingHistory)
  then have d: "distinct (map fst [] @ map fst (pricingHistory claims))" by (simp add: wfHist_def)
  have "\<forall>pe\<in>set (pricingHistory claims). distinct (map fst (snd pe))"
  proof
    fix pe assume "pe \<in> set (pricingHistory claims)"
    then have "map_of (pricingHistory claims) (fst pe) = Some (snd pe)"
      using w by (simp add: wfHist_def)
    then show "distinct (map fst (snd pe))" using w unfolding wfHist_def by blast
  qed
  from foldl_setPayer[OF d this] show ?thesis by (simp add: calculateReimbursementRates_def)
qed

lemma map_of_entries:
  "map_of (map (\<lambda>e. (fst e, f (fst e) (snd e))) es) c = map_option (f c) (map_of es c)"
  by (induction es) auto

lemma lookup2_entriesOf:
  "lookup2 (map entriesOf hist) p c = map_option (rateEntry p c) (lookup2 hist p c)"
proof (induction hist)
  case Nil
  show ?case by (simp add: lookup2_def)
next
  case (Cons pe hist)
  show ?case
  proof (cases "fst pe = p")
    case True
    then show ?thesis by (simp add: lookup2_def entriesOf_def map_of_entries)
  next
    case False
    then show ?thesis using Cons by (simp add: lookup2_def entriesOf_def)
  qed
qed

lemma lookup2_rates:
  "lookup2 (calculateReimbursementRates claims) p c =
     (if groupRates claims p c = [] then None else Some (rateEntry p c (groupRates claims p c)))"
  by (simp add: calc_as_map lookup2_entriesOf lookup2_pricingHistory)


lemma freq_map:
  "map_of (fst (foldl countRate ([], 0) rs)) r = (if r \<in> set rs then Some (count_list rs r) else None)"
proof (induction rs rule: rev_induct)
  case Nil
  show ?case by simp
next
  case (snoc x xs)
  show ?case using snoc by (auto simp: countRate_def update_conv')
qed

lemma freq_distinct: "distinct (map fst (fst (foldl countRate ([], 0) rs)))"
  by (induction rs rule: rev_induct) (auto simp: countRate_def distinct_update)

lemma snd_countRate: "snd (countRate st x) = max x (snd st)"
  by (simp add: countRate_def max_def)

lemma maxRate_fold: "snd (foldl countRate ([], 0) rs) = Max (insert 0 (set rs))"
proof (induction rs rule: rev_induct)
  case Nil
  show ?case by simp
next
  case (snoc x xs)
  have "Max (insert x (insert 0 (set xs))) = max x (Max (insert 0 (set xs)))"
    by (rule Max_insert) simp_all
  moreover have "insert 0 (set (xs @ [x])) = insert x (insert 0 (set xs))" by auto
  ultimately have m: "Max (insert 0 (set (xs @ [x]))) = max x (Max (insert 0 (set xs)))"
    by (simp only:)
  have "snd (foldl countRate ([], 0) (xs @ [x])) = max x (snd (foldl countRate ([], 0) xs))"
    by (simp only: foldl_append foldl.simps snd_countRate)
  then show ?case by (simp only: snoc m)
qed

lemma maxRate_nonneg:
  assumes "rs \<noteq> []" "\<forall>r\<in>set rs. 0 \<le> r"
  shows "snd (foldl countRate ([], 0) rs) = spec_maxRate rs"
proof -
  have "0 \<le> Max (set rs)" using assms by (cases rs) (auto simp: Max_ge_iff)
  then have "Max (insert 0 (set rs)) = Max (set rs)" using assms(1) by (simp add: max_def)
  then show ?thesis by (simp add: maxRate_fold spec_maxRate_def)
qed

lemma freq_set:
  "set (fst (foldl countRate ([], 0) rs)) = (\<lambda>r. (r, count_list rs r)) ` set rs"
proof -
  let ?fr = "fst (foldl countRate ([], 0) rs)"
  have "(r, n) \<in> set ?fr \<longleftrightarrow> (r \<in> set rs \<and> n = count_list rs r)" for r n
    using map_of_eq_Some_iff[OF freq_distinct[of rs], of r n] freq_map[of rs r]
    by (auto split: if_splits)
  then show ?thesis by auto
qed

lemma freq_length: "length (fst (foldl countRate ([], 0) rs)) = card (set rs)"
proof -
  let ?fr = "fst (foldl countRate ([], 0) rs)"
  have "length ?fr = card (set (map fst ?fr))"
    using distinct_card[OF freq_distinct[of rs]] by simp
  also have "set (map fst ?fr) = set rs" by (simp add: freq_set image_image)
  finally show ?thesis .
qed

lemma set_objectEntries: "set (objectEntries fr) = set fr"
  by (auto simp: objectEntries_def)

lemma best_step: "best S st \<Longrightarrow> best (insert e S) (modeStep st e)"
  unfolding best_def modeStep_def by (cases st; cases e) (auto split: if_splits)

lemma best_fold: "best S st \<Longrightarrow> best (S \<union> set es) (foldl modeStep st es)"
proof (induction es arbitrary: S st)
  case Nil
  then show ?case by simp
next
  case (Cons e es)
  from Cons.IH[OF best_step[OF Cons.prems, of e]] show ?case by simp
qed

lemma best_mode:
  assumes "es \<noteq> []" "\<forall>e\<in>set es. 0 < snd e"
  shows "best (set es) (foldl modeStep (0, 0) es)"
proof -
  obtain e es' where es: "es = e # es'" using assms(1) by (cases es) auto
  have "0 < snd e" using assms(2) es by simp
  then have st: "modeStep (0, 0) e = e" by (cases e) (simp add: modeStep_def)
  have "best {e} e" by (simp add: best_def)
  from best_fold[OF this, of es'] show ?thesis by (simp add: es st)
qed

lemma best_maxFreq:
  assumes "best (set es) st"
  shows "snd st = Max (snd ` set es)"
proof (rule sym, rule Max_eqI)
  show "finite (snd ` set es)" by simp
  show "snd st \<in> snd ` set es" using assms by (auto simp: best_def)
  fix y assume "y \<in> snd ` set es"
  then show "y \<le> snd st" using assms by (auto simp: best_def)
qed

lemma best_modeRate:
  assumes "best (set es) st"
  shows "fst st = Max {r. (r, snd st) \<in> set es}"
proof (rule sym, rule Max_eqI)
  have "{r. (r, snd st) \<in> set es} \<subseteq> fst ` set es" by force
  then show "finite {r. (r, snd st) \<in> set es}" by (rule finite_subset) simp
  show "fst st \<in> {r. (r, snd st) \<in> set es}" using assms by (simp add: best_def)
  fix y assume "y \<in> {r. (r, snd st) \<in> set es}"
  then show "y \<le> fst st" using assms by (auto simp: best_def)
qed

lemma count_list_pos: "r \<in> set rs \<Longrightarrow> 0 < count_list rs r"
  by (rule ccontr) (simp add: count_list_0_iff)

lemma mode_loop:
  assumes "rs \<noteq> []"
  shows "foldl modeStep (0, 0) (objectEntries (fst (foldl countRate ([], 0) rs))) =
           (spec_modeRate rs, spec_maxFreq rs)"
proof -
  let ?fr = "fst (foldl countRate ([], 0) rs)"
  let ?es = "objectEntries ?fr"
  let ?st = "foldl modeStep (0, 0) ?es"
  have se: "set ?es = (\<lambda>r. (r, count_list rs r)) ` set rs"
    by (simp add: set_objectEntries freq_set)
  have ne: "?es \<noteq> []" using se assms by auto
  have pos: "\<forall>e\<in>set ?es. 0 < snd e"
    unfolding se by (auto simp: count_list_pos)
  have b: "best (set ?es) ?st" by (rule best_mode[OF ne pos])
  have f: "snd ?st = spec_maxFreq rs"
    using best_maxFreq[OF b] by (simp add: se spec_maxFreq_def image_image)
  have "{r. (r, snd ?st) \<in> set ?es} = {r \<in> set rs. count_list rs r = spec_maxFreq rs}"
    unfolding se f by auto
  then have m: "fst ?st = spec_modeRate rs"
    using best_modeRate[OF b] by (simp add: spec_modeRate_def)
  from f m show ?thesis by (simp add: prod_eq_iff)
qed

lemma rateEntry_spec:
  assumes "rs \<noteq> []" "\<forall>r\<in>set rs. 0 \<le> r"
  shows "rateEntry p c rs =
           \<lparr> payer_r = p, cpt_r = c,
             expectedRate = (if 2 < card (set rs) then spec_modeRate rs else spec_maxRate rs),
             method_r = (if 2 < card (set rs) then MethodMode else MethodMax),
             frequency = spec_maxFreq rs \<rparr>"
  by (simp add: rateEntry_def Let_def mode_loop[OF assms(1)] maxRate_nonneg[OF assms] freq_length)

text \<open>
  The rounding to a double on some values: one tenth, the two products of the unit price
  201 / 200, the ties of the integers above \<open>2^53\<close> (to the even neighbour), and a negative value.
\<close>

lemma toDouble_examples:
  "toDouble (1 / 10) = 3602879701896397 / 2 ^ 55"
  "toDouble (201 / 200) = 1131529406376837 / 2 ^ 50"
  "toDouble (toDouble (201 / 200) * 100) = 7072058789855231 / 2 ^ 46"
  "toDouble (2 ^ 53 + 1) = 2 ^ 53"
  "toDouble (2 ^ 53 + 3) = 2 ^ 53 + 4"
  "toDouble (- 5 / 2) = - 5 / 2"
  by code_simp+

text \<open>The bound of the finite range written out, for evaluation.\<close>

lemma fitsDouble_code [code]:
  "fitsDouble x = (\<bar>x\<bar> < 179769313486231580793728971405303415079934132710037826936173778980444968292764750946649017977587207096330286416692887910946555547851940402630657488671505820681908902000708383676273854845817711531764475730270069855571366959622842914819860834936475292719074168444365510704342711559699508093042880177904174497792)"
  by (simp add: fitsDouble_def)

lemma pow2_pos: "0 < pow2 k"
  by (simp add: pow2_def)

lemma roundHalfEven_nonneg: "0 \<le> q \<Longrightarrow> 0 \<le> roundHalfEven q"
proof -
  assume "0 \<le> q"
  then have "0 \<le> \<lfloor>q\<rfloor>" by simp
  then show ?thesis by (simp add: roundHalfEven_def Let_def)
qed

lemma toDouble_nonneg: "0 \<le> x \<Longrightarrow> 0 \<le> toDouble x"
proof -
  assume x: "0 \<le> x"
  have "0 \<le> of_int (roundHalfEven (x / pow2 k)) * pow2 k" for k
  proof -
    have "0 \<le> x / pow2 k" using x pow2_pos[of k] by simp
    then have "0 \<le> roundHalfEven (x / pow2 k)" by (rule roundHalfEven_nonneg)
    then have "(0 :: rat) \<le> of_int (roundHalfEven (x / pow2 k))" by simp
    then show ?thesis using pow2_pos[of k] by simp
  qed
  then show ?thesis by (simp add: toDouble_def Let_def)
qed

lemma roundedRate_nonneg: "qualifies x \<Longrightarrow> 0 \<le> roundedRate x"
proof -
  assume "qualifies x"
  then have "0 \<le> paid x / units x" by (simp add: qualifies_def)
  then have "0 \<le> toDouble (paid x / units x) * 100" using toDouble_nonneg by simp
  then have "0 \<le> toDouble (toDouble (paid x / units x) * 100)" by (rule toDouble_nonneg)
  then have "0 \<le> mathRound (toDouble (toDouble (paid x / units x) * 100))"
    by (simp add: mathRound_def)
  then have "(0 :: rat) \<le> of_int (mathRound (toDouble (toDouble (paid x / units x) * 100))) / 100"
    by simp
  then show ?thesis unfolding roundedRate_def by (rule toDouble_nonneg)
qed

lemma groupRates_nonneg: "\<forall>r\<in>set (groupRates claims p c). 0 \<le> r"
  by (auto simp: groupRates_def roundedRate_nonneg)

text \<open>
  Claim C1. Take the entry the rate table holds for a payer and a procedure code, and
  the group of rounded unit rates of that payer's qualifying paid claims for that code
  (each rate computed as the code computes it, in double precision, the unit prices being
  in the finite range). When the group has more than two distinct values, the expected
  rate is the mode rate (the highest of the rates that occur most often) and the method is
  Mode; otherwise the expected rate is the highest rate of the group and the method is
  Max. In both cases the frequency recorded is the highest number of occurrences of any
  rate in the group, which need not be the number of occurrences of the rate chosen.
\<close>

theorem rate_selection_rule:
  assumes "list_all (\<lambda>x. qualifies x \<longrightarrow> rateInRange x) claims"
    and "lookup2 (calculateReimbursementRates claims) p c = Some e"
  shows "expectedRate e =
           (if 2 < card (set (groupRates claims p c)) then spec_modeRate (groupRates claims p c)
            else spec_maxRate (groupRates claims p c)) \<and>
         method_r e = (if 2 < card (set (groupRates claims p c)) then MethodMode else MethodMax) \<and>
         frequency e = spec_maxFreq (groupRates claims p c)"
proof -
  have ne: "groupRates claims p c \<noteq> []"
    using assms(2) by (auto simp: lookup2_rates split: if_splits)
  then have "e = rateEntry p c (groupRates claims p c)"
    using assms(2) by (simp add: lookup2_rates)
  then show ?thesis
    by (simp add: rateEntry_spec[OF ne groupRates_nonneg])
qed

theorem rate_selection_rule_witness:
  "list_all (\<lambda>x. qualifies x \<longrightarrow> rateInRange x) (map (exampleClaim ''A'' ''P'' ''C'' 1 0) [10, 10, 10, 20, 20, 20, 30]) \<and>
   lookup2 (calculateReimbursementRates (map (exampleClaim ''A'' ''P'' ''C'' 1 0) [10, 10, 10, 20, 20, 20, 30])) ''P'' ''C'' =
     Some \<lparr> payer_r = ''P'', cpt_r = ''C'', expectedRate = 20, method_r = MethodMode, frequency = 3 \<rparr> \<and>
   spec_modeRate (groupRates (map (exampleClaim ''A'' ''P'' ''C'' 1 0) [10, 10, 10, 20, 20, 20, 30]) ''P'' ''C'') = 20 \<and>
   spec_maxFreq (groupRates (map (exampleClaim ''A'' ''P'' ''C'' 1 0) [10, 10, 10, 20, 20, 20, 30]) ''P'' ''C'') = 3 \<and>
   list_all (\<lambda>x. qualifies x \<longrightarrow> rateInRange x) (map (exampleClaim ''A'' ''P'' ''C'' 1 0) [5, 5, 7]) \<and>
   lookup2 (calculateReimbursementRates (map (exampleClaim ''A'' ''P'' ''C'' 1 0) [5, 5, 7])) ''P'' ''C'' =
     Some \<lparr> payer_r = ''P'', cpt_r = ''C'', expectedRate = 7, method_r = MethodMax, frequency = 2 \<rparr> \<and>
   spec_maxRate (groupRates (map (exampleClaim ''A'' ''P'' ''C'' 1 0) [5, 5, 7]) ''P'' ''C'') = 7 \<and>
   spec_maxFreq (groupRates (map (exampleClaim ''A'' ''P'' ''C'' 1 0) [5, 5, 7]) ''P'' ''C'') = 2 \<and>
   count_list (groupRates (map (exampleClaim ''A'' ''P'' ''C'' 1 0) [5, 5, 7]) ''P'' ''C'') 7 = 1 \<and>
   list_all (\<lambda>x. qualifies x \<longrightarrow> rateInRange x)
     [exampleClaim ''A'' ''P'' ''C'' 200 0 201, exampleClaim ''A'' ''P'' ''C'' 100 0 101,
      exampleClaim ''A'' ''P'' ''C'' 2 0 1, exampleClaim ''A'' ''P'' ''C'' 2 0 1] \<and>
   lookup2 (calculateReimbursementRates
       [exampleClaim ''A'' ''P'' ''C'' 200 0 201, exampleClaim ''A'' ''P'' ''C'' 100 0 101,
        exampleClaim ''A'' ''P'' ''C'' 2 0 1, exampleClaim ''A'' ''P'' ''C'' 2 0 1]) ''P'' ''C'' =
     Some \<lparr> payer_r = ''P'', cpt_r = ''C'', expectedRate = 1 / 2, method_r = MethodMode, frequency = 2 \<rparr> \<and>
   spec_modeRate (groupRates
       [exampleClaim ''A'' ''P'' ''C'' 200 0 201, exampleClaim ''A'' ''P'' ''C'' 100 0 101,
        exampleClaim ''A'' ''P'' ''C'' 2 0 1, exampleClaim ''A'' ''P'' ''C'' 2 0 1] ''P'' ''C'') = 1 / 2"
proof -
  let ?c1 = "map (exampleClaim ''A'' ''P'' ''C'' 1 0) [10, 10, 10, 20, 20, 20, 30]"
  let ?c2 = "map (exampleClaim ''A'' ''P'' ''C'' 1 0) [5, 5, 7]"
  let ?c3 = "[exampleClaim ''A'' ''P'' ''C'' 200 0 201, exampleClaim ''A'' ''P'' ''C'' 100 0 101,
        exampleClaim ''A'' ''P'' ''C'' 2 0 1, exampleClaim ''A'' ''P'' ''C'' 2 0 1]"
  let ?g1 = "groupRates ?c1 ''P'' ''C''"
  let ?g2 = "groupRates ?c2 ''P'' ''C''"
  let ?g3 = "groupRates ?c3 ''P'' ''C''"
  have a1: "list_all (\<lambda>x. qualifies x \<longrightarrow> rateInRange x) ?c1" by code_simp
  have a2: "list_all (\<lambda>x. qualifies x \<longrightarrow> rateInRange x) ?c2" by code_simp
  have a3: "list_all (\<lambda>x. qualifies x \<longrightarrow> rateInRange x) ?c3" by code_simp
  have h1: "lookup2 (calculateReimbursementRates ?c1) ''P'' ''C'' =
     Some \<lparr> payer_r = ''P'', cpt_r = ''C'', expectedRate = 20, method_r = MethodMode, frequency = 3 \<rparr>"
    by code_simp
  have h2: "lookup2 (calculateReimbursementRates ?c2) ''P'' ''C'' =
     Some \<lparr> payer_r = ''P'', cpt_r = ''C'', expectedRate = 7, method_r = MethodMax, frequency = 2 \<rparr>"
    by code_simp
  have h3: "lookup2 (calculateReimbursementRates ?c3) ''P'' ''C'' =
     Some \<lparr> payer_r = ''P'', cpt_r = ''C'', expectedRate = 1 / 2, method_r = MethodMode, frequency = 2 \<rparr>"
    by code_simp
  have m1: "(if 2 < card (set ?g1) then MethodMode else MethodMax) = MethodMode"
    using rate_selection_rule[OF a1 h1] by simp
  then have c1: "2 < card (set ?g1)" by (simp split: if_splits)
  have m2: "(if 2 < card (set ?g2) then MethodMode else MethodMax) = MethodMax"
    using rate_selection_rule[OF a2 h2] by simp
  then have c2: "\<not> 2 < card (set ?g2)" by (simp split: if_splits)
  have m3: "(if 2 < card (set ?g3) then MethodMode else MethodMax) = MethodMode"
    using rate_selection_rule[OF a3 h3] by simp
  then have c3: "2 < card (set ?g3)" by (simp split: if_splits)
  have r1: "spec_modeRate ?g1 = 20" "spec_maxFreq ?g1 = 3"
    using rate_selection_rule[OF a1 h1] c1 by simp_all
  have r2: "spec_maxRate ?g2 = 7" "spec_maxFreq ?g2 = 2"
    using rate_selection_rule[OF a2 h2] c2 by simp_all
  have r3: "spec_modeRate ?g3 = 1 / 2"
    using rate_selection_rule[OF a3 h3] c3 by simp
  have k: "count_list ?g2 7 = 1" by code_simp
  from a1 a2 a3 h1 h2 h3 r1 r2 r3 k show ?thesis by blast
qed

lemma groupRates_unfold:
  "groupRates claims p c =
     map (\<lambda>x. toDouble (of_int \<lfloor>toDouble (toDouble (paid x / units x) * 100) + 1 / 2\<rfloor> / 100))
       (filter (\<lambda>x. isPaid x \<and> 0 < paid x \<and> 0 < units x \<and> payer x = p \<and> cpt x = c) claims)"
  by (simp add: groupRates_def qualifies_def roundedRate_def[abs_def] mathRound_def conj_assoc)

lemma groupRates_empty:
  "groupRates claims p c = [] \<longleftrightarrow>
     \<not> (\<exists>x\<in>set claims. isPaid x \<and> 0 < paid x \<and> 0 < units x \<and> payer x = p \<and> cpt x = c)"
  by (auto simp: groupRates_def qualifies_def filter_empty_conv)

lemma rateEntry_method: "method_r (rateEntry p c rs) \<noteq> MethodNone"
  by (simp add: rateEntry_def Let_def)

lemma lookup2_rates_spec:
  "lookup2 (calculateReimbursementRates claims) p c =
     (if groupRates claims p c = [] then None
      else Some \<lparr> payer_r = p, cpt_r = c,
                  expectedRate = (if 2 < card (set (groupRates claims p c)) then spec_modeRate (groupRates claims p c)
                                  else spec_maxRate (groupRates claims p c)),
                  method_r = (if 2 < card (set (groupRates claims p c)) then MethodMode else MethodMax),
                  frequency = spec_maxFreq (groupRates claims p c) \<rparr>)"
proof (cases "groupRates claims p c = []")
  case True
  then show ?thesis by (simp add: lookup2_rates)
next
  case False
  show ?thesis
    using False rateEntry_spec[OF False groupRates_nonneg, of p c] by (simp add: lookup2_rates)
qed

text \<open>
  Claim C2. The rate table has an entry for a payer and a procedure code exactly when
  some claim of that payer and code has \<^verbatim>\<open>isPaid\<close> true, a positive paid amount and a
  positive number of units. Each of those claims contributes its unit price rounded to two
  decimals as the code computes it, in double precision: the quotient paid / units, its
  product with 100, the nearest integer of that (a half going upwards) and the quotient of
  this integer by 100 (the unit prices being in the finite range). The pricing history of
  the pair is the list of these values in input order, the histogram is keyed by them and
  counts their occurrences, and the entry of the pair is the one the selection rule gives
  for this list: the rounded values, not the unit prices, decide which payments are the
  same rate. A pair without a qualifying claim has no entry, and no entry has the method
  None.
\<close>

theorem rate_table_contributions:
  assumes "list_all (\<lambda>x. qualifies x \<longrightarrow> rateInRange x) claims"
  shows
  "(let G = map (\<lambda>x. toDouble (of_int \<lfloor>toDouble (toDouble (paid x / units x) * 100) + 1 / 2\<rfloor> / 100))
              (filter (\<lambda>x. isPaid x \<and> 0 < paid x \<and> 0 < units x \<and> payer x = p \<and> cpt x = c) claims)
    in (lookup2 (calculateReimbursementRates claims) p c \<noteq> None \<longleftrightarrow>
          (\<exists>x\<in>set claims. isPaid x \<and> 0 < paid x \<and> 0 < units x \<and> payer x = p \<and> cpt x = c)) \<and>
       lookup2 (pricingHistory claims) p c = (if G = [] then None else Some G) \<and>
       lookup2 (calculateReimbursementRates claims) p c =
         (if G = [] then None
          else Some \<lparr> payer_r = p, cpt_r = c,
                      expectedRate = (if 2 < card (set G) then spec_modeRate G else spec_maxRate G),
                      method_r = (if 2 < card (set G) then MethodMode else MethodMax),
                      frequency = Max ((\<lambda>r. count_list G r) ` set G) \<rparr>) \<and>
       map_of (fst (foldl countRate ([], 0) G)) r = (if r \<in> set G then Some (count_list G r) else None) \<and>
       (\<forall>e. lookup2 (calculateReimbursementRates claims) p c = Some e \<longrightarrow> method_r e \<noteq> MethodNone))"
proof -
  have a: "lookup2 (calculateReimbursementRates claims) p c \<noteq> None \<longleftrightarrow>
          (\<exists>x\<in>set claims. isPaid x \<and> 0 < paid x \<and> 0 < units x \<and> payer x = p \<and> cpt x = c)"
    using groupRates_empty[of claims p c] by (auto simp: lookup2_rates)
  have e: "\<forall>e. lookup2 (calculateReimbursementRates claims) p c = Some e \<longrightarrow> method_r e \<noteq> MethodNone"
    by (auto simp: lookup2_rates rateEntry_method split: if_splits)
  show ?thesis
    unfolding Let_def groupRates_unfold[symmetric] spec_maxFreq_def[symmetric]
    using a e lookup2_pricingHistory[of claims p c] lookup2_rates_spec[of claims p c]
      freq_map[of "groupRates claims p c" r]
    by blast
qed

theorem rate_table_contributions_witness:
  "list_all (\<lambda>x. qualifies x \<longrightarrow> rateInRange x)
     [exampleClaim ''A'' ''P'' ''C'' 200 100 201, exampleClaim ''A'' ''P'' ''C'' 2 80 0,
      exampleClaim ''A'' ''P'' ''D'' 0 50 50, exampleClaim ''B'' ''Q'' ''C'' 1 90 (1 / 200),
      exampleClaim ''B'' ''P'' ''C'' 4 9 4] \<and>
   lookup2 (pricingHistory
       [exampleClaim ''A'' ''P'' ''C'' 200 100 201, exampleClaim ''A'' ''P'' ''C'' 2 80 0,
        exampleClaim ''A'' ''P'' ''D'' 0 50 50, exampleClaim ''B'' ''Q'' ''C'' 1 90 (1 / 200),
        exampleClaim ''B'' ''P'' ''C'' 4 9 4]) ''P'' ''C'' = Some [1, 1] \<and>
   lookup2 (calculateReimbursementRates
       [exampleClaim ''A'' ''P'' ''C'' 200 100 201, exampleClaim ''A'' ''P'' ''C'' 2 80 0,
        exampleClaim ''A'' ''P'' ''D'' 0 50 50, exampleClaim ''B'' ''Q'' ''C'' 1 90 (1 / 200),
        exampleClaim ''B'' ''P'' ''C'' 4 9 4]) ''P'' ''C'' =
     Some \<lparr> payer_r = ''P'', cpt_r = ''C'', expectedRate = 1, method_r = MethodMax, frequency = 2 \<rparr> \<and>
   method_r \<lparr> payer_r = ''P'', cpt_r = ''C'', expectedRate = 1, method_r = MethodMax, frequency = 2 \<rparr> \<noteq> MethodNone \<and>
   lookup2 (calculateReimbursementRates
       [exampleClaim ''A'' ''P'' ''C'' 200 100 201, exampleClaim ''A'' ''P'' ''C'' 2 80 0,
        exampleClaim ''A'' ''P'' ''D'' 0 50 50, exampleClaim ''B'' ''Q'' ''C'' 1 90 (1 / 200),
        exampleClaim ''B'' ''P'' ''C'' 4 9 4]) ''P'' ''D'' = None \<and>
   lookup2 (calculateReimbursementRates
       [exampleClaim ''A'' ''P'' ''C'' 200 100 201, exampleClaim ''A'' ''P'' ''C'' 2 80 0,
        exampleClaim ''A'' ''P'' ''D'' 0 50 50, exampleClaim ''B'' ''Q'' ''C'' 1 90 (1 / 200),
        exampleClaim ''B'' ''P'' ''C'' 4 9 4]) ''Q'' ''C'' = None"
proof -
  let ?cl = "[exampleClaim ''A'' ''P'' ''C'' 200 100 201, exampleClaim ''A'' ''P'' ''C'' 2 80 0,
        exampleClaim ''A'' ''P'' ''D'' 0 50 50, exampleClaim ''B'' ''Q'' ''C'' 1 90 (1 / 200),
        exampleClaim ''B'' ''P'' ''C'' 4 9 4]"
  have hyp: "list_all (\<lambda>x. qualifies x \<longrightarrow> rateInRange x) ?cl" by code_simp
  have g: "map (\<lambda>x. toDouble (of_int \<lfloor>toDouble (toDouble (paid x / units x) * 100) + 1 / 2\<rfloor> / 100))
              (filter (\<lambda>x. isPaid x \<and> 0 < paid x \<and> 0 < units x \<and> payer x = ''P'' \<and> cpt x = ''C'') ?cl) = [1, 1]"
    by code_simp
  have h: "lookup2 (calculateReimbursementRates ?cl) ''P'' ''C'' =
     Some \<lparr> payer_r = ''P'', cpt_r = ''C'', expectedRate = 1, method_r = MethodMax, frequency = 2 \<rparr>"
    by code_simp
  have d: "\<not> (\<exists>x\<in>set ?cl. isPaid x \<and> 0 < paid x \<and> 0 < units x \<and> payer x = ''P'' \<and> cpt x = ''D'')"
    by (simp add: exampleClaim_def)
  have q: "\<not> (\<exists>x\<in>set ?cl. isPaid x \<and> 0 < paid x \<and> 0 < units x \<and> payer x = ''Q'' \<and> cpt x = ''C'')"
    by (simp add: exampleClaim_def)
  have ph: "lookup2 (pricingHistory ?cl) ''P'' ''C'' = Some [1, 1]"
    using rate_table_contributions[OF hyp, of "''P''" "''C''" 0] unfolding Let_def g by simp
  have m: "method_r \<lparr> payer_r = ''P'', cpt_r = ''C'', expectedRate = 1, method_r = MethodMax, frequency = 2 \<rparr> \<noteq> MethodNone"
    using rate_table_contributions[OF hyp, of "''P''" "''C''" 0] h unfolding Let_def by blast
  have n1: "lookup2 (calculateReimbursementRates ?cl) ''P'' ''D'' = None"
    using rate_table_contributions[OF hyp, of "''P''" "''D''" 0] d unfolding Let_def by blast
  have n2: "lookup2 (calculateReimbursementRates ?cl) ''Q'' ''C'' = None"
    using rate_table_contributions[OF hyp, of "''Q''" "''C''" 0] q unfolding Let_def by blast
  from hyp ph h m n1 n2 show ?thesis by blast
qed

section \<open>The denial opportunity aggregator\<close>

lemma map_of_addDenial:
  "map_of (addDenial rates stats c) p =
     (if payer c = p
      then Some (bumpStat rates (case map_of stats p of None \<Rightarrow> zeroStat p | Some s \<Rightarrow> s) c)
      else map_of stats p)"
  by (auto simp: addDenial_def Let_def update_conv' bumpStat_def zeroStat_def spec_projected_def
      split: option.splits)

lemma map_of_foldl_addDenial:
  "map_of (foldl (addDenial rates) stats cs) p =
     (if filter (\<lambda>c. payer c = p) cs = [] then map_of stats p
      else Some (foldl (bumpStat rates) (case map_of stats p of None \<Rightarrow> zeroStat p | Some s \<Rightarrow> s)
                   (filter (\<lambda>c. payer c = p) cs)))"
proof (induction cs arbitrary: stats)
  case Nil
  show ?case by simp
next
  case (Cons c cs)
  show ?case by (simp add: Cons map_of_addDenial)
qed

lemma bumpStat_fields:
  "deniedUnits (bumpStat rates s c) = deniedUnits s + units c"
  "deniedValue (bumpStat rates s c) = deniedValue s + charge c"
  "projectedValue (bumpStat rates s c) = projectedValue s + spec_projected rates c"
  "(bumpStat rates s c) \<lparr> deniedUnits := a, deniedValue := b, projectedValue := d \<rparr> =
     s \<lparr> deniedUnits := a, deniedValue := b, projectedValue := d \<rparr>"
  by (simp_all add: bumpStat_def)

lemma foldl_bumpStat:
  "foldl (bumpStat rates) s cs =
     s \<lparr> deniedUnits := deniedUnits s + sum_list (map units cs),
         deniedValue := deniedValue s + sum_list (map charge cs),
         projectedValue := projectedValue s + sum_list (map (spec_projected rates) cs) \<rparr>"
proof (induction cs arbitrary: s)
  case Nil
  show ?case by simp
next
  case (Cons c cs)
  have "foldl (bumpStat rates) s (c # cs) = foldl (bumpStat rates) (bumpStat rates s c) cs" by simp
  also note Cons[of "bumpStat rates s c"]
  finally show ?case by (simp add: bumpStat_fields add.assoc)
qed

lemma distinct_addDenial: "distinct (map fst stats) \<Longrightarrow> distinct (map fst (addDenial rates stats c))"
  by (auto simp: addDenial_def Let_def distinct_update split: option.splits)

lemma distinct_denialStats: "distinct (map fst (denialStats claims rates))"
proof -
  have "distinct (map fst stats) \<Longrightarrow> distinct (map fst (foldl (addDenial rates) stats cs))" for stats cs
    by (induction cs arbitrary: stats) (auto simp: distinct_addDenial)
  then show ?thesis by (simp add: denialStats_def)
qed

lemma map_of_denialStats:
  "map_of (denialStats claims rates) p =
     (if filter (\<lambda>c. \<not> isPaid c \<and> payer c = p) claims = [] then None
      else Some (spec_denial claims rates p))"
proof -
  have f: "filter (\<lambda>c. payer c = p) (filter (\<lambda>c. \<not> isPaid c) claims) =
           filter (\<lambda>c. \<not> isPaid c \<and> payer c = p) claims"
    by (simp add: conj_commute)
  show ?thesis
    unfolding denialStats_def map_of_foldl_addDenial f
    by (simp add: foldl_bumpStat zeroStat_def spec_denial_def Let_def)
qed

lemma set_denialStats:
  "set (denialStats claims rates) =
     (\<lambda>p. (p, spec_denial claims rates p)) ` {p. \<exists>c\<in>set claims. \<not> isPaid c \<and> payer c = p}"
proof -
  have "(k, s) \<in> set (denialStats claims rates) \<longleftrightarrow>
        ((\<exists>c\<in>set claims. \<not> isPaid c \<and> payer c = k) \<and> s = spec_denial claims rates k)" for k s
    using map_of_eq_Some_iff[OF distinct_denialStats[of claims rates], of k s]
      map_of_denialStats[of claims rates k]
    by (auto simp: filter_empty_conv split: if_splits)
  then show ?thesis by auto
qed

lemma payer_d_spec_denial: "payer_d (spec_denial claims rates p) = p"
  by (simp add: spec_denial_def Let_def)

lemma denial_output:
  "set (calculateDenialOpportunity claims rates) =
     spec_denial claims rates ` {p. \<exists>c\<in>set claims. \<not> isPaid c \<and> payer c = p}"
  by (simp add: calculateDenialOpportunity_def set_denialStats image_image)

lemma denial_distinct: "distinct (map payer_d (calculateDenialOpportunity claims rates))"
proof -
  have "map payer_d (calculateDenialOpportunity claims rates) = map fst (denialStats claims rates)"
    unfolding calculateDenialOpportunity_def map_map
  proof (rule map_cong[OF refl])
    fix e assume "e \<in> set (denialStats claims rates)"
    then show "(payer_d \<circ> snd) e = fst e"
      by (auto simp: set_denialStats payer_d_spec_denial)
  qed
  then show ?thesis by (simp add: distinct_denialStats)
qed

lemma spec_denial_unfold:
  "spec_denial claims rates p =
     \<lparr> payer_d = p,
       deniedUnits = sum_list (map units (filter (\<lambda>c. \<not> isPaid c \<and> payer c = p) claims)),
       deniedValue = sum_list (map charge (filter (\<lambda>c. \<not> isPaid c \<and> payer c = p) claims)),
       projectedValue =
         sum_list (map (\<lambda>c. case lookup2 rates p (cpt c) of None \<Rightarrow> 0 | Some r \<Rightarrow> units c * expectedRate r)
                     (filter (\<lambda>c. \<not> isPaid c \<and> payer c = p) claims)) \<rparr>"
proof -
  have "map (spec_projected rates) (filter (\<lambda>c. \<not> isPaid c \<and> payer c = p) claims) =
        map (\<lambda>c. case lookup2 rates p (cpt c) of None \<Rightarrow> 0 | Some r \<Rightarrow> units c * expectedRate r)
          (filter (\<lambda>c. \<not> isPaid c \<and> payer c = p) claims)"
    by (rule map_cong[OF refl]) (simp add: spec_projected_def)
  then show ?thesis unfolding spec_denial_def Let_def by (simp only:)
qed

lemma spec_denial_fun:
  "spec_denial claims rates =
     (\<lambda>p. \<lparr> payer_d = p,
            deniedUnits = sum_list (map units (filter (\<lambda>c. \<not> isPaid c \<and> payer c = p) claims)),
            deniedValue = sum_list (map charge (filter (\<lambda>c. \<not> isPaid c \<and> payer c = p) claims)),
            projectedValue =
              sum_list (map (\<lambda>c. case lookup2 rates p (cpt c) of None \<Rightarrow> 0 | Some r \<Rightarrow> units c * expectedRate r)
                          (filter (\<lambda>c. \<not> isPaid c \<and> payer c = p) claims)) \<rparr>)"
  by (rule ext) (rule spec_denial_unfold)

text \<open>
  Claim C3. The result holds one record per payer that has a claim with \<^verbatim>\<open>isPaid\<close>
  false, and no other record. In the record of a payer, \<^verbatim>\<open>deniedUnits\<close> is the sum of
  the units of the payer's unpaid claims, \<^verbatim>\<open>deniedValue\<close> the sum of their billed
  charges, and \<^verbatim>\<open>projectedValue\<close> the sum over them of units times the expected rate
  when the rate table has an entry for the payer and the code of the claim, and of 0 when
  it has none (the charge is never used in its place). Paid claims contribute nothing.
\<close>

theorem denial_opportunity_spec:
  "set (calculateDenialOpportunity claims rates) =
     (\<lambda>p. \<lparr> payer_d = p,
            deniedUnits = sum_list (map units (filter (\<lambda>c. \<not> isPaid c \<and> payer c = p) claims)),
            deniedValue = sum_list (map charge (filter (\<lambda>c. \<not> isPaid c \<and> payer c = p) claims)),
            projectedValue =
              sum_list (map (\<lambda>c. case lookup2 rates p (cpt c) of None \<Rightarrow> 0 | Some r \<Rightarrow> units c * expectedRate r)
                          (filter (\<lambda>c. \<not> isPaid c \<and> payer c = p) claims)) \<rparr>)
       ` {p. \<exists>c\<in>set claims. \<not> isPaid c \<and> payer c = p} \<and>
   distinct (map payer_d (calculateDenialOpportunity claims rates))"
  using denial_output[of claims rates] denial_distinct[of claims rates]
  unfolding spec_denial_fun by (rule conjI)

theorem denial_opportunity_spec_witness:
  "\<lparr> payer_d = ''Q'', deniedUnits = 5, deniedValue = 140, projectedValue = 0 \<rparr>
     \<in> set (calculateDenialOpportunity
              [exampleClaim ''A'' ''P'' ''C'' 2 100 80, exampleClaim ''A'' ''P'' ''C'' 3 150 0,
               exampleClaim ''B'' ''Q'' ''C'' 1 90 0, exampleClaim ''B'' ''Q'' ''D'' 4 50 0]
              (calculateReimbursementRates
                 [exampleClaim ''A'' ''P'' ''C'' 2 100 80, exampleClaim ''A'' ''P'' ''C'' 3 150 0,
                  exampleClaim ''B'' ''Q'' ''C'' 1 90 0, exampleClaim ''B'' ''Q'' ''D'' 4 50 0])) \<and>
   \<lparr> payer_d = ''P'', deniedUnits = 3, deniedValue = 150, projectedValue = 120 \<rparr>
     \<in> set (calculateDenialOpportunity
              [exampleClaim ''A'' ''P'' ''C'' 2 100 80, exampleClaim ''A'' ''P'' ''C'' 3 150 0,
               exampleClaim ''B'' ''Q'' ''C'' 1 90 0, exampleClaim ''B'' ''Q'' ''D'' 4 50 0]
              (calculateReimbursementRates
                 [exampleClaim ''A'' ''P'' ''C'' 2 100 80, exampleClaim ''A'' ''P'' ''C'' 3 150 0,
                  exampleClaim ''B'' ''Q'' ''C'' 1 90 0, exampleClaim ''B'' ''Q'' ''D'' 4 50 0]))"
proof -
  let ?cl = "[exampleClaim ''A'' ''P'' ''C'' 2 100 80, exampleClaim ''A'' ''P'' ''C'' 3 150 0,
               exampleClaim ''B'' ''Q'' ''C'' 1 90 0, exampleClaim ''B'' ''Q'' ''D'' 4 50 0]"
  let ?f = "\<lambda>p. \<lparr> payer_d = p,
            deniedUnits = sum_list (map units (filter (\<lambda>c. \<not> isPaid c \<and> payer c = p) ?cl)),
            deniedValue = sum_list (map charge (filter (\<lambda>c. \<not> isPaid c \<and> payer c = p) ?cl)),
            projectedValue =
              sum_list (map (\<lambda>c. case lookup2 (calculateReimbursementRates ?cl) p (cpt c) of
                                  None \<Rightarrow> 0 | Some r \<Rightarrow> units c * expectedRate r)
                          (filter (\<lambda>c. \<not> isPaid c \<and> payer c = p) ?cl)) \<rparr>"
  have s: "set (calculateDenialOpportunity ?cl (calculateReimbursementRates ?cl)) =
             ?f ` {p. \<exists>c\<in>set ?cl. \<not> isPaid c \<and> payer c = p}"
    using denial_opportunity_spec[of ?cl "calculateReimbursementRates ?cl"] by (rule conjunct1)
  have q: "?f ''Q'' = \<lparr> payer_d = ''Q'', deniedUnits = 5, deniedValue = 140, projectedValue = 0 \<rparr>"
    by code_simp
  have p: "?f ''P'' = \<lparr> payer_d = ''P'', deniedUnits = 3, deniedValue = 150, projectedValue = 120 \<rparr>"
    by code_simp
  have dq: "''Q'' \<in> {p. \<exists>c\<in>set ?cl. \<not> isPaid c \<and> payer c = p}"
    by (simp add: exampleClaim_def)
  have dp: "''P'' \<in> {p. \<exists>c\<in>set ?cl. \<not> isPaid c \<and> payer c = p}"
    by (simp add: exampleClaim_def)
  have "?f ''Q'' \<in> set (calculateDenialOpportunity ?cl (calculateReimbursementRates ?cl))"
    unfolding s using dq by (rule imageI)
  moreover have "?f ''P'' \<in> set (calculateDenialOpportunity ?cl (calculateReimbursementRates ?cl))"
    unfolding s using dp by (rule imageI)
  ultimately show ?thesis by (simp only: q p)
qed

section \<open>The patient encounter aggregator\<close>

lemma payer_addPatient:
  "map_option payer_s (map_of (addPatient h ps c) k) =
     (if patientId c = k
      then Some (case map_of ps k of None \<Rightarrow> payer c | Some s \<Rightarrow> payer_s s)
      else map_option payer_s (map_of ps k))"
  by (auto simp: addPatient_def Let_def update_conv' split: option.splits)

lemma payer_foldl_addPatient:
  "map_option payer_s (map_of (foldl (addPatient h) ps cs) k) =
     (case map_of ps k of
        Some s \<Rightarrow> Some (payer_s s)
      | None \<Rightarrow> (case filter (\<lambda>c. patientId c = k) cs of [] \<Rightarrow> None | c # rest \<Rightarrow> Some (payer c)))"
proof (induction cs arbitrary: ps)
  case Nil
  show ?case by (simp split: option.splits)
next
  case (Cons c cs)
  show ?case
  proof (cases "patientId c = k")
    case True
    have "map_of (addPatient h ps c) k \<noteq> None"
      using payer_addPatient[of h ps c k] True by auto
    then obtain s' where s': "map_of (addPatient h ps c) k = Some s'" by auto
    then have "payer_s s' = (case map_of ps k of None \<Rightarrow> payer c | Some s \<Rightarrow> payer_s s)"
      using payer_addPatient[of h ps c k] True by simp
    then show ?thesis using True s' by (simp add: Cons split: option.splits)
  next
    case False
    then have "map_option payer_s (map_of (addPatient h ps c) k) = map_option payer_s (map_of ps k)"
      by (simp add: payer_addPatient)
    then show ?thesis using False by (auto simp: Cons split: option.splits)
  qed
qed

lemma pid_addPatient:
  "(\<forall>k s. map_of ps k = Some s \<longrightarrow> patientId_s s = k) \<Longrightarrow>
   (\<forall>k s. map_of (addPatient h ps c) k = Some s \<longrightarrow> patientId_s s = k)"
  by (auto simp: addPatient_def Let_def update_conv' split: option.splits if_splits)

lemma pid_foldl_addPatient:
  "(\<forall>k s. map_of ps k = Some s \<longrightarrow> patientId_s s = k) \<Longrightarrow>
   (\<forall>k s. map_of (foldl (addPatient h) ps cs) k = Some s \<longrightarrow> patientId_s s = k)"
proof (induction cs arbitrary: ps)
  case Nil
  then show ?case by simp
next
  case (Cons c cs)
  from Cons.IH[OF pid_addPatient[OF Cons.prems, of h c]] show ?case by simp
qed

lemma distinct_addPatient: "distinct (map fst ps) \<Longrightarrow> distinct (map fst (addPatient h ps c))"
  by (auto simp: addPatient_def Let_def distinct_update split: option.splits)

lemma distinct_foldl_addPatient:
  "distinct (map fst ps) \<Longrightarrow> distinct (map fst (foldl (addPatient h) ps cs))"
  by (induction cs arbitrary: ps) (auto simp: distinct_addPatient)

lemma patients_entry:
  assumes "(k, s) \<in> set (foldl (addPatient h) [] claims)"
  shows "patientId_s s = k \<and>
         (\<exists>c rest. filter (\<lambda>c. patientId c = k) claims = c # rest \<and> payer_s s = payer c)"
proof -
  have m: "map_of (foldl (addPatient h) [] claims) k = Some s"
    using assms distinct_foldl_addPatient[of "[]" h claims] by simp
  have a: "patientId_s s = k"
    using pid_foldl_addPatient[of "[]" h claims] m by simp
  have "Some (payer_s s) =
      (case filter (\<lambda>c. patientId c = k) claims of [] \<Rightarrow> None | c # rest \<Rightarrow> Some (payer c))"
    using payer_foldl_addPatient[of h "[]" claims k] m by simp
  then have "\<exists>c rest. filter (\<lambda>c. patientId c = k) claims = c # rest \<and> payer_s s = payer c"
    by (cases "filter (\<lambda>c. patientId c = k) claims") auto
  with a show ?thesis by simp
qed

lemma patients_keys:
  "fst ` set (foldl (addPatient h) ps cs) = fst ` set ps \<union> patientId ` set cs"
proof (induction cs arbitrary: ps)
  case Nil
  show ?case by simp
next
  case (Cons c cs)
  have "fst ` set (addPatient h ps c) = insert (patientId c) (fst ` set ps)"
    by (auto simp: addPatient_def Let_def dom_update split: option.splits dest: map_of_SomeD)
  then show ?case by (simp add: Cons)
qed

lemma analyze_first_payer:
  assumes "s \<in> set (analyzePatients h claims)"
  shows "\<exists>c rest. filter (\<lambda>c. patientId c = patientId_s s) claims = c # rest \<and> payer_s s = payer c"
proof -
  from assms obtain e where e: "e \<in> set (foldl (addPatient h) [] claims)"
    and s: "patientId_s s = patientId_s (snd e)" "payer_s s = payer_s (snd e)"
    by (auto simp: analyzePatients_def Let_def)
  from patients_entry[of "fst e" "snd e" h claims] e
  show ?thesis by (simp add: s)
qed

lemma analyze_patient_ids:
  "patientId_s ` set (analyzePatients h claims) = patientId ` set claims"
proof -
  have "patientId_s ` set (analyzePatients h claims) = (\<lambda>e. patientId_s (snd e)) ` set (foldl (addPatient h) [] claims)"
    by (simp add: analyzePatients_def Let_def image_image)
  also have "\<dots> = fst ` set (foldl (addPatient h) [] claims)"
    by (rule image_cong[OF refl]) (use patients_entry in force)
  finally show ?thesis by (simp add: patients_keys)
qed

text \<open>
  Claim C9, as the claim states it, fails: with two claims of one patient, the first
  for Aetna and the last for Cigna, the patient's record carries Aetna.
\<close>

theorem analyzePatients_payer_not_last:
  "map (\<lambda>s. (patientId_s s, payer_s s))
     (analyzePatients sampleHost
        [exampleClaim ''A'' ''Aetna'' ''99213'' 1 100 80, exampleClaim ''A'' ''Cigna'' ''99214'' 1 100 90]) =
     [(''A'', ''Aetna'')] \<and>
   payer (last [exampleClaim ''A'' ''Aetna'' ''99213'' 1 100 80, exampleClaim ''A'' ''Cigna'' ''99214'' 1 100 90]) = ''Cigna''"
  by code_simp

text \<open>
  Claim C9, amended. In the patient encounter aggregator, the payer field of each
  patient's stat record equals the payer of the first claim of that patient in the input
  sequence (the claim that creates the record); there is a record for exactly the patient
  ids that occur in the input.
\<close>

theorem analyzePatients_payer:
  "(s \<in> set (analyzePatients h claims) \<longrightarrow>
      (\<exists>c rest. filter (\<lambda>c. patientId c = patientId_s s) claims = c # rest \<and> payer_s s = payer c)) \<and>
   patientId_s ` set (analyzePatients h claims) = patientId ` set claims"
  using analyze_first_payer[of s h claims] analyze_patient_ids[of h claims] by blast

theorem analyzePatients_payer_witness:
  "\<lparr> patientName_s = ''Unknown Patient'', patientId_s = ''A'', totalVisits = 1, totalRevenue = 170,
      lastVisit = None, payer_s = ''Aetna'' \<rparr>
     \<in> set (analyzePatients sampleHost
              [exampleClaim ''A'' ''Aetna'' ''99213'' 1 100 80, exampleClaim ''A'' ''Cigna'' ''99214'' 1 100 90]) \<and>
   (\<exists>c rest.
      filter (\<lambda>c. patientId c =
                  patientId_s \<lparr> patientName_s = ''Unknown Patient'', patientId_s = ''A'', totalVisits = 1,
                                 totalRevenue = 170, lastVisit = None, payer_s = ''Aetna'' \<rparr>)
        [exampleClaim ''A'' ''Aetna'' ''99213'' 1 100 80, exampleClaim ''A'' ''Cigna'' ''99214'' 1 100 90] = c # rest \<and>
      payer_s \<lparr> patientName_s = ''Unknown Patient'', patientId_s = ''A'', totalVisits = 1,
                 totalRevenue = 170, lastVisit = None, payer_s = ''Aetna'' \<rparr> = payer c)"
proof -
  have m: "\<lparr> patientName_s = ''Unknown Patient'', patientId_s = ''A'', totalVisits = 1, totalRevenue = 170,
      lastVisit = None, payer_s = ''Aetna'' \<rparr>
     \<in> set (analyzePatients sampleHost
              [exampleClaim ''A'' ''Aetna'' ''99213'' 1 100 80, exampleClaim ''A'' ''Cigna'' ''99214'' 1 100 90])"
    by code_simp
  from analyzePatients_payer[of _ sampleHost] m show ?thesis by blast
qed

section \<open>Invariants of the parsed claims\<close>

lemma toUpperChar_fixed:
  assumes "d \<in> set (toUpperChar c)"
  shows "toUpperChar d = [d]"
proof -
  define n where "n = (of_char c :: nat)"
  define low where "low k \<longleftrightarrow> (97 \<le> k \<and> k \<le> 122) \<or> (224 \<le> k \<and> k \<le> 254 \<and> k \<noteq> 247)" for k :: nat
  have u: "toUpperChar x =
             (if low (of_char x) then [char_of (of_char x - 32 :: nat)]
              else if (of_char x :: nat) = 223 then ''SS'' else [x])" for x
    by (simp add: toUpperChar_def Let_def low_def)
  show ?thesis
  proof (cases "low n")
    case True
    then have lt: "n - 32 < 256" by (auto simp: low_def)
    have a: "(of_char (char_of (n - 32)) :: nat) = n - 32" using lt by (simp add: of_char_of)
    have b: "\<not> low (n - 32)" "n - 32 \<noteq> 223" using True by (auto simp: low_def)
    have "toUpperChar c = [char_of (n - 32)]" using True by (simp add: u n_def)
    then have "d = char_of (n - 32)" using assms by simp
    then show ?thesis using a b by (simp add: u)
  next
    case False
    show ?thesis
    proof (cases "n = 223")
      case True
      then have "toUpperChar c = ''SS''" using False by (simp add: u n_def)
      then have "d = CHR ''S''" using assms by simp
      then show ?thesis by (simp add: toUpperChar_def)
    next
      case n: False
      then have "toUpperChar c = [c]" using False by (simp add: u n_def)
      then have "d = c" using assms by simp
      then show ?thesis using False n by (simp add: u n_def)
    qed
  qed
qed

lemma toUpperChar_fixed_list: "\<forall>d\<in>set xs. toUpperChar d = [d] \<Longrightarrow> concat (map toUpperChar xs) = xs"
  by (induction xs) auto

lemma toUpperCase_idem: "toUpperCase (toUpperCase s) = toUpperCase s"
proof -
  have "\<forall>d\<in>set (concat (map toUpperChar s)). toUpperChar d = [d]"
    using toUpperChar_fixed by auto
  then show ?thesis unfolding toUpperCase_def by (rule toUpperChar_fixed_list)
qed

lemma determineCodeType_upper: "determineCodeType (toUpperCase s) = determineCodeType s"
  by (simp add: determineCodeType_def toUpperCase_idem)

lemma toUpperChar_nonempty: "toUpperChar c \<noteq> []"
  by (simp add: toUpperChar_def Let_def)

lemma toUpperCase_Nil: "toUpperCase s = [] \<longleftrightarrow> s = []"
  by (cases s) (simp_all add: toUpperCase_def toUpperChar_nonempty)

lemma csvClaim_ok: "csvClaim h fb cols n row = Some c \<Longrightarrow> claimOK c \<and> cpt c \<noteq> []"
  by (auto simp: csvClaim_def Let_def claimOK_def toUpperCase_idem determineCodeType_upper toUpperCase_Nil
      split: option.splits if_splits)

lemma csvRows_ok: "list_all (\<lambda>c. claimOK c \<and> cpt c \<noteq> []) (csvRows h fb cols n rows)"
proof (induction rows arbitrary: n)
  case Nil
  show ?case by simp
next
  case (Cons row rows)
  show ?case
    using Cons csvClaim_ok[of h fb cols n row] by (cases "csvClaim h fb cols n row") auto
qed

lemma visitClaim_ok: "visitClaim h fb hm info n row = Some c \<Longrightarrow> claimOK c \<and> cpt c \<noteq> []"
  by (auto simp: visitClaim_def Let_def claimOK_def toUpperCase_idem determineCodeType_upper toUpperCase_Nil
      split: if_splits)

lemma visitRows_ok: "list_all (\<lambda>c. claimOK c \<and> cpt c \<noteq> []) (visitRows h fb hm info n rows)"
proof (induction rows arbitrary: info n)
  case Nil
  show ?case by simp
next
  case (Cons row rows)
  show ?case
    using Cons visitClaim_ok[of h fb hm info n row]
    by (cases "visitClaim h fb hm info n row") auto
qed

lemma paymentClaim_ok:
  "paymentClaim h hm prov n row = Some c \<Longrightarrow> claimOK c \<and> units c = 1 \<and> charge c = 0"
  by (auto simp: paymentClaim_def Let_def claimOK_def toUpperCase_idem determineCodeType_upper
      split: if_splits)

lemma paymentRows_ok:
  "list_all (\<lambda>c. claimOK c \<and> units c = 1 \<and> charge c = 0) (paymentRows h hm prov n rows)"
proof (induction rows arbitrary: prov n)
  case Nil
  show ?case by simp
next
  case (Cons row rows)
  show ?case
    using Cons paymentClaim_ok[of h hm prov n row]
    by (cases "paymentClaim h hm prov n row") auto
qed

lemma parseClaimsData_ok:
  "parseClaimsData h inp fb = Inr cs \<Longrightarrow> list_all (\<lambda>c. claimOK c \<and> cpt c \<noteq> []) cs"
  using csvRows_ok by (auto simp: parseClaimsData_def Let_def split: if_splits)

lemma parseExcelReport_payment_ok:
  "parseExcelReport h rows fb = Inr cs \<Longrightarrow> paymentLayout rows \<Longrightarrow>
   list_all (\<lambda>c. claimOK c \<and> units c = 1 \<and> charge c = 0) cs"
  using paymentRows_ok
  by (auto simp: parseExcelReport_def paymentLayout_def Let_def split: option.splits if_splits)

lemma parseExcelReport_visit_ok:
  "parseExcelReport h rows fb = Inr cs \<Longrightarrow> \<not> paymentLayout rows \<Longrightarrow>
   list_all (\<lambda>c. claimOK c \<and> cpt c \<noteq> []) cs"
  using visitRows_ok
  by (auto simp: parseExcelReport_def paymentLayout_def Let_def split: option.splits if_splits)

text \<open>
  Claim C4, as the claim states it, fails: units and charge can be negative. The units
  are whatever \<^verbatim>\<open>parseFloat\<close> reads and the charge is the value of the money
  normalizer, so a row with units \<^verbatim>\<open>-2\<close> and charge \<^verbatim>\<open>(500)\<close> gives a claim with
  units -2 and charge -500.
\<close>

theorem parsed_claim_negative_units_charge:
  "parseClaimsData sampleHost (''cpt,units,charges'' @ [LF] @ ''A1,-2,(500)'') ''Dr X'' =
     Inr [\<lparr> claim_id = 1, provider = ''Dr X'', cpt = ''A1'', codeType = AQL, units = - 2, charge = - 500,
         paid = 0, patientId = ''Unknown ID'', patientName = ''Unknown Patient'', payer = ''Unknown Payer'',
         dos = None, dateSort = 0, isPaid = False \<rparr>]"
  by code_simp

text \<open>
  Claim C4, amended. Every claim produced by \<^verbatim>\<open>parseClaimsData\<close> or
  \<^verbatim>\<open>parseExcelReport\<close> has a paid amount that is not negative, a code in upper case
  and the code class that the classification gives for its code. The code is non-empty
  in the claims of \<^verbatim>\<open>parseClaimsData\<close> and of the visit-report layout. In the
  payment-report layout the units are 1 and the charge is 0. (Elsewhere the units and the
  charge are what the cells parse to and may be negative.)
\<close>

theorem parsed_claim_invariants:
  "(parseClaimsData h inp fb = Inr cs \<longrightarrow>
      list_all (\<lambda>c. 0 \<le> paid c \<and> cpt c \<noteq> [] \<and> toUpperCase (cpt c) = cpt c \<and> codeType c = determineCodeType (cpt c)) cs) \<and>
   (parseExcelReport h rows fb = Inr xs \<and> \<not> paymentLayout rows \<longrightarrow>
      list_all (\<lambda>c. 0 \<le> paid c \<and> cpt c \<noteq> [] \<and> toUpperCase (cpt c) = cpt c \<and> codeType c = determineCodeType (cpt c)) xs) \<and>
   (parseExcelReport h rows fb = Inr xs \<and> paymentLayout rows \<longrightarrow>
      list_all (\<lambda>c. 0 \<le> paid c \<and> toUpperCase (cpt c) = cpt c \<and> codeType c = determineCodeType (cpt c) \<and> units c = 1 \<and> charge c = 0) xs)"
proof -
  have e1: "(\<lambda>c. claimOK c \<and> cpt c \<noteq> []) =
      (\<lambda>c. 0 \<le> paid c \<and> cpt c \<noteq> [] \<and> toUpperCase (cpt c) = cpt c \<and> codeType c = determineCodeType (cpt c))"
    by (rule ext) (auto simp: claimOK_def)
  have e2: "(\<lambda>c. claimOK c \<and> units c = 1 \<and> charge c = 0) =
      (\<lambda>c. 0 \<le> paid c \<and> toUpperCase (cpt c) = cpt c \<and> codeType c = determineCodeType (cpt c) \<and> units c = 1 \<and> charge c = 0)"
    by (rule ext) (auto simp: claimOK_def)
  from parseClaimsData_ok[of h inp fb cs] parseExcelReport_visit_ok[of h rows fb xs]
    parseExcelReport_payment_ok[of h rows fb xs]
  show ?thesis unfolding e1 e2 by blast
qed

theorem parsed_claim_invariants_witness:
  "parseClaimsData sampleHost (''cpt,units,charges,insurance_payment,patient_id,payer,date_of_service'' @ [LF] @ ''A1000,2,100.00,80.00,P1,Aetna,2024-01-15'') [] =
     Inr [\<lparr> claim_id = 1, provider = ''Unknown Provider'', cpt = ''A1000'', codeType = AQL, units = 2,
         charge = 100, paid = 80, patientId = ''P1'', patientName = ''Unknown Patient'', payer = ''Aetna'',
         dos = Some (LocalDate 2024 1 15), dateSort = 1705276800000, isPaid = True \<rparr>] \<and>
   list_all (\<lambda>c. 0 \<le> paid c \<and> cpt c \<noteq> [] \<and> toUpperCase (cpt c) = cpt c \<and> codeType c = determineCodeType (cpt c))
     [\<lparr> claim_id = 1, provider = ''Unknown Provider'', cpt = ''A1000'', codeType = AQL, units = 2,
         charge = 100, paid = 80, patientId = ''P1'', patientName = ''Unknown Patient'', payer = ''Aetna'',
         dos = Some (LocalDate 2024 1 15), dateSort = 1705276800000, isPaid = True \<rparr>] \<and>
   (parseExcelReport sampleHost
     [[Str ''Date of Service'', Str ''CPT'', Str ''Days or Units'', Str ''Charges'', Str ''Insurance Payment''],
      [Str ''Patient: Ann Lee'', Str [], Str ''Patient ID:'', Number 17, Str []],
      [Str ''Insurance: Aetna'', Str [], Str ''Provider:'', Str '' Dr Who '', Str []],
      [Str ''1/5/2024'', Str ''99213'', Number 1, Str ''$120.00'', Str ''(80.00)'']] ''Fallback'' =
     Inr [\<lparr> claim_id = 1, provider = ''Dr Who'', cpt = ''99213'', codeType = NUMERIC, units = 1,
         charge = 120, paid = 80, patientId = ''17'', patientName = ''Ann Lee'', payer = ''Aetna'',
         dos = Some (LocalDate 2024 1 5), dateSort = 1704412800000, isPaid = True \<rparr>] \<and>
    \<not> paymentLayout
     [[Str ''Date of Service'', Str ''CPT'', Str ''Days or Units'', Str ''Charges'', Str ''Insurance Payment''],
      [Str ''Patient: Ann Lee'', Str [], Str ''Patient ID:'', Number 17, Str []],
      [Str ''Insurance: Aetna'', Str [], Str ''Provider:'', Str '' Dr Who '', Str []],
      [Str ''1/5/2024'', Str ''99213'', Number 1, Str ''$120.00'', Str ''(80.00)'']]) \<and>
   list_all (\<lambda>c. 0 \<le> paid c \<and> cpt c \<noteq> [] \<and> toUpperCase (cpt c) = cpt c \<and> codeType c = determineCodeType (cpt c))
     [\<lparr> claim_id = 1, provider = ''Dr Who'', cpt = ''99213'', codeType = NUMERIC, units = 1,
         charge = 120, paid = 80, patientId = ''17'', patientName = ''Ann Lee'', payer = ''Aetna'',
         dos = Some (LocalDate 2024 1 5), dateSort = 1704412800000, isPaid = True \<rparr>] \<and>
   (parseExcelReport sampleHost
     [[Str ''DOS'', Str ''CPT'', Str ''Applied Payments'', Str ''Payer''],
      [Str ''Provider Name: XINGBO SUN, DPM'', Str [], Str [], Str []],
      [Str ''1/5/2024'', Str ''a4550'', Str ''($80.00)'', Str ''UHC West'']] [] =
     Inr [\<lparr> claim_id = 1, provider = ''XINGBO SUN, DPM'', cpt = ''A4550'', codeType = AQL, units = 1,
         charge = 0, paid = 80, patientId = ''Unknown'', patientName = ''Unknown'',
         payer = ''UnitedHealthcare'', dos = Some (LocalDate 2024 1 5), dateSort = 1704412800000,
         isPaid = True \<rparr>] \<and>
    paymentLayout
     [[Str ''DOS'', Str ''CPT'', Str ''Applied Payments'', Str ''Payer''],
      [Str ''Provider Name: XINGBO SUN, DPM'', Str [], Str [], Str []],
      [Str ''1/5/2024'', Str ''a4550'', Str ''($80.00)'', Str ''UHC West'']]) \<and>
   list_all (\<lambda>c. 0 \<le> paid c \<and> toUpperCase (cpt c) = cpt c \<and> codeType c = determineCodeType (cpt c) \<and> units c = 1 \<and> charge c = 0)
     [\<lparr> claim_id = 1, provider = ''XINGBO SUN, DPM'', cpt = ''A4550'', codeType = AQL, units = 1,
         charge = 0, paid = 80, patientId = ''Unknown'', patientName = ''Unknown'',
         payer = ''UnitedHealthcare'', dos = Some (LocalDate 2024 1 5), dateSort = 1704412800000,
         isPaid = True \<rparr>]"
proof -
  have h1: "parseClaimsData sampleHost (''cpt,units,charges,insurance_payment,patient_id,payer,date_of_service'' @ [LF] @ ''A1000,2,100.00,80.00,P1,Aetna,2024-01-15'') [] =
     Inr [\<lparr> claim_id = 1, provider = ''Unknown Provider'', cpt = ''A1000'', codeType = AQL, units = 2,
         charge = 100, paid = 80, patientId = ''P1'', patientName = ''Unknown Patient'', payer = ''Aetna'',
         dos = Some (LocalDate 2024 1 15), dateSort = 1705276800000, isPaid = True \<rparr>]"
    by code_simp
  have h2: "parseExcelReport sampleHost
     [[Str ''Date of Service'', Str ''CPT'', Str ''Days or Units'', Str ''Charges'', Str ''Insurance Payment''],
      [Str ''Patient: Ann Lee'', Str [], Str ''Patient ID:'', Number 17, Str []],
      [Str ''Insurance: Aetna'', Str [], Str ''Provider:'', Str '' Dr Who '', Str []],
      [Str ''1/5/2024'', Str ''99213'', Number 1, Str ''$120.00'', Str ''(80.00)'']] ''Fallback'' =
     Inr [\<lparr> claim_id = 1, provider = ''Dr Who'', cpt = ''99213'', codeType = NUMERIC, units = 1,
         charge = 120, paid = 80, patientId = ''17'', patientName = ''Ann Lee'', payer = ''Aetna'',
         dos = Some (LocalDate 2024 1 5), dateSort = 1704412800000, isPaid = True \<rparr>] \<and>
    \<not> paymentLayout
     [[Str ''Date of Service'', Str ''CPT'', Str ''Days or Units'', Str ''Charges'', Str ''Insurance Payment''],
      [Str ''Patient: Ann Lee'', Str [], Str ''Patient ID:'', Number 17, Str []],
      [Str ''Insurance: Aetna'', Str [], Str ''Provider:'', Str '' Dr Who '', Str []],
      [Str ''1/5/2024'', Str ''99213'', Number 1, Str ''$120.00'', Str ''(80.00)'']]"
    by code_simp
  have h3: "parseExcelReport sampleHost
     [[Str ''DOS'', Str ''CPT'', Str ''Applied Payments'', Str ''Payer''],
      [Str ''Provider Name: XINGBO SUN, DPM'', Str [], Str [], Str []],
      [Str ''1/5/2024'', Str ''a4550'', Str ''($80.00)'', Str ''UHC West'']] [] =
     Inr [\<lparr> claim_id = 1, provider = ''XINGBO SUN, DPM'', cpt = ''A4550'', codeType = AQL, units = 1,
         charge = 0, paid = 80, patientId = ''Unknown'', patientName = ''Unknown'',
         payer = ''UnitedHealthcare'', dos = Some (LocalDate 2024 1 5), dateSort = 1704412800000,
         isPaid = True \<rparr>] \<and>
    paymentLayout
     [[Str ''DOS'', Str ''CPT'', Str ''Applied Payments'', Str ''Payer''],
      [Str ''Provider Name: XINGBO SUN, DPM'', Str [], Str [], Str []],
      [Str ''1/5/2024'', Str ''a4550'', Str ''($80.00)'', Str ''UHC West'']]"
    by code_simp
  have c1: "list_all (\<lambda>c. 0 \<le> paid c \<and> cpt c \<noteq> [] \<and> toUpperCase (cpt c) = cpt c \<and> codeType c = determineCodeType (cpt c))
     [\<lparr> claim_id = 1, provider = ''Unknown Provider'', cpt = ''A1000'', codeType = AQL, units = 2,
         charge = 100, paid = 80, patientId = ''P1'', patientName = ''Unknown Patient'', payer = ''Aetna'',
         dos = Some (LocalDate 2024 1 15), dateSort = 1705276800000, isPaid = True \<rparr>]"
    by (rule parsed_claim_invariants[THEN conjunct1, THEN mp, OF h1])
  have c2: "list_all (\<lambda>c. 0 \<le> paid c \<and> cpt c \<noteq> [] \<and> toUpperCase (cpt c) = cpt c \<and> codeType c = determineCodeType (cpt c))
     [\<lparr> claim_id = 1, provider = ''Dr Who'', cpt = ''99213'', codeType = NUMERIC, units = 1,
         charge = 120, paid = 80, patientId = ''17'', patientName = ''Ann Lee'', payer = ''Aetna'',
         dos = Some (LocalDate 2024 1 5), dateSort = 1704412800000, isPaid = True \<rparr>]"
    by (rule parsed_claim_invariants[THEN conjunct2, THEN conjunct1, THEN mp, OF h2])
  have c3: "list_all (\<lambda>c. 0 \<le> paid c \<and> toUpperCase (cpt c) = cpt c \<and> codeType c = determineCodeType (cpt c) \<and> units c = 1 \<and> charge c = 0)
     [\<lparr> claim_id = 1, provider = ''XINGBO SUN, DPM'', cpt = ''A4550'', codeType = AQL, units = 1,
         charge = 0, paid = 80, patientId = ''Unknown'', patientName = ''Unknown'',
         payer = ''UnitedHealthcare'', dos = Some (LocalDate 2024 1 5), dateSort = 1704412800000,
         isPaid = True \<rparr>]"
    by (rule parsed_claim_invariants[THEN conjunct2, THEN conjunct2, THEN mp, OF h3])
  show ?thesis
    by (rule conjI[OF h1 conjI[OF c1 conjI[OF h2 conjI[OF c2 conjI[OF h3 c3]]]]])
qed

section \<open>The running context of the visit report\<close>

lemma unknown_payer: "normalizePayerName ''Unknown Payer'' = ''Unknown Payer''"
  by code_simp

lemma visitClaim_no_insurance:
  assumes "Insurance info = None" "Provider info = None" "visitClaim h fb hm info n row = Some c"
  shows "payer c = ''Unknown Payer'' \<and> provider c = (if fb = [] then ''Unknown Provider'' else fb)"
  using assms
  by (auto simp: visitClaim_def Let_def orElse_def unknown_payer split: if_splits)

lemma visitRows_no_insurance:
  "Insurance info = None \<Longrightarrow> Provider info = None \<Longrightarrow> list_all (\<lambda>r. \<not> isInsuranceRow r) rows \<Longrightarrow>
   list_all (\<lambda>c. payer c = ''Unknown Payer'' \<and> provider c = (if fb = [] then ''Unknown Provider'' else fb))
     (visitRows h fb hm info n rows)"
proof (induction rows arbitrary: info n)
  case Nil
  show ?case by simp
next
  case (Cons row rows)
  have rest: "list_all (\<lambda>r. \<not> isInsuranceRow r) rows" and ni: "\<not> isInsuranceRow row"
    using Cons.prems(3) by simp_all
  show ?case
  proof (cases "rowSkipped h row")
    case True
    then show ?thesis using Cons.IH[OF Cons.prems(1,2) rest] by simp
  next
    case ns: False
    show ?thesis
    proof (cases "isPatientRow row")
      case True
      then show ?thesis using ns Cons.IH[OF _ _ rest] by simp
    next
      case np: False
      show ?thesis
      proof (cases "visitClaim h fb hm info n row")
        case None
        then show ?thesis using ns np ni Cons.IH[OF Cons.prems(1,2) rest] by simp
      next
        case (Some c)
        then show ?thesis
          using ns np ni Cons.IH[OF Cons.prems(1,2) rest]
            visitClaim_no_insurance[OF Cons.prems(1,2) Some]
          by simp
      qed
    qed
  qed
qed

lemma visitRows_append:
  "\<exists>info' n'. visitRows h fb hm info n (A @ B) = visitRows h fb hm info n A @ visitRows h fb hm info' n' B"
proof (induction A arbitrary: info n)
  case Nil
  show ?case by auto
next
  case (Cons row A)
  show ?case
  proof (cases "rowSkipped h row")
    case True
    then show ?thesis using Cons[of info n] by simp
  next
    case ns: False
    show ?thesis
    proof (cases "isPatientRow row")
      case True
      then show ?thesis
        using ns Cons[of "\<lparr> Patient_Name = Some (findValueByKeyword h row ''Patient:''),
            Patient_ID = Some (findValueByKeyword h row ''Patient ID:''),
            Insurance = None, Provider = None \<rparr>" n]
        by simp
    next
      case np: False
      show ?thesis
      proof (cases "isInsuranceRow row")
        case True
        then show ?thesis
          using ns np Cons[of "info \<lparr> Insurance := Some (findValueByKeyword h row ''Insurance:''),
                  Provider := Some (findValueByKeyword h row ''Provider:'') \<rparr>" n]
          by simp
      next
        case ni: False
        show ?thesis
        proof (cases "visitClaim h fb hm info n row")
          case None
          then show ?thesis using ns np ni Cons[of info n] by simp
        next
          case (Some c)
          then show ?thesis using ns np ni Cons[of info "n + 1"] by simp
        qed
      qed
    qed
  qed
qed

lemma findHeaderRow_bound: "findHeaderRow A = Some i \<Longrightarrow> i < length A"
  by (induction A arbitrary: i) (auto split: if_splits)

lemma findHeaderRow_append: "findHeaderRow A = Some i \<Longrightarrow> findHeaderRow (A @ B) = Some i"
  by (induction A arbitrary: i) (auto split: if_splits)

lemma visit_report_split:
  assumes "findHeaderRow A = Some i" "\<not> isPaymentReport (A ! i)"
  shows "\<exists>info n. parseExcelReport h (A @ B) fb =
           Inr (visitRows h fb (headerMapOf (A ! i)) emptyInfo 1 (drop (i + 1) A)
                @ visitRows h fb (headerMapOf (A ! i)) info n B)
         \<and> parseExcelReport h A fb = Inr (visitRows h fb (headerMapOf (A ! i)) emptyInfo 1 (drop (i + 1) A))"
proof -
  have b: "i < length A" by (rule findHeaderRow_bound[OF assms(1)])
  then have nth: "(A @ B) ! i = A ! i" by (simp add: nth_append)
  have dr: "drop (Suc i) (A @ B) = drop (Suc i) A @ B" using b by simp
  have p1: "parseExcelReport h A fb = Inr (visitRows h fb (headerMapOf (A ! i)) emptyInfo 1 (drop (i + 1) A))"
    using assms by (simp add: parseExcelReport_def Let_def)
  have p2: "parseExcelReport h (A @ B) fb =
      Inr (visitRows h fb (headerMapOf (A ! i)) emptyInfo 1 (drop (i + 1) A @ B))"
    using assms findHeaderRow_append[OF assms(1), of B]
    by (simp add: parseExcelReport_def Let_def nth dr del: drop_append)
  from visitRows_append[of h fb "headerMapOf (A ! i)" emptyInfo 1 "drop (i + 1) A" B] p1 p2
  show ?thesis by auto
qed

lemma visit_patient_row:
  assumes "\<not> rowSkipped h prow" "isPatientRow prow"
  shows "visitRows h fb hm info n (prow # rs) =
           visitRows h fb hm
             \<lparr> Patient_Name = Some (findValueByKeyword h prow ''Patient:''),
               Patient_ID = Some (findValueByKeyword h prow ''Patient ID:''),
               Insurance = None, Provider = None \<rparr> n rs"
  using assms by simp

text \<open>
  Claim C10, as the claim states it, fails: a row with a cell starting with
  \<^verbatim>\<open>patient:\<close> does not always reset the context. A row whose text contains
  \<^verbatim>\<open>page:\<close> (or \<^verbatim>\<open>sub total\<close>) is skipped before the patient test, so the data row
  after it still carries the insurance and the provider of the earlier insurance row.
\<close>

theorem visit_patient_row_skipped:
  "isPatientRow [Str ''Patient: Bob'', Str ''Page: 2''] \<and>
   parseExcelReport sampleHost
     [[Str ''Date of Service'', Str ''CPT''],
      [Str ''Insurance: Aetna'', Str ''Provider: Dr Who''],
      [Str ''Patient: Bob'', Str ''Page: 2''],
      [Str ''1/6/2024'', Str ''99213'']] ''Fallback'' =
     Inr [\<lparr> claim_id = 1, provider = ''Dr Who'', cpt = ''99213'', codeType = NUMERIC, units = 0,
            charge = 0, paid = 0, patientId = ''Unknown ID'', patientName = ''Unknown Patient'',
            payer = ''Aetna'', dos = Some (LocalDate 2024 1 6), dateSort = 1704499200000,
            isPaid = False \<rparr>]"
  by code_simp

text \<open>
  Claim C10, amended. In the visit-report layout, a row that has a cell starting with
  \<^verbatim>\<open>patient:\<close> and is not skipped (it is not blank and its text contains neither
  \<^verbatim>\<open>sub total\<close> nor \<^verbatim>\<open>page:\<close>) replaces the whole running context by a fresh one
  that holds only the new patient name and id. Whatever rows came before it, the claims
  emitted from the rows after it, as long as none of those rows has a cell starting with
  \<^verbatim>\<open>insurance:\<close>, all have the payer \<^verbatim>\<open>Unknown Payer\<close> and the provider given by the
  caller, or \<^verbatim>\<open>Unknown Provider\<close> when that is empty.
\<close>

theorem visit_patient_row_resets:
  assumes "findHeaderRow A = Some i" and "\<not> isPaymentReport (A ! i)"
    and "\<not> rowSkipped h prow" and "isPatientRow prow"
    and "list_all (\<lambda>r. \<not> isInsuranceRow r) rs"
  shows "\<exists>pre post n.
           parseExcelReport h A fb = Inr pre \<and>
           parseExcelReport h (A @ prow # rs) fb = Inr (pre @ post) \<and>
           post = visitRows h fb (headerMapOf (A ! i))
                    \<lparr> Patient_Name = Some (findValueByKeyword h prow ''Patient:''),
                      Patient_ID = Some (findValueByKeyword h prow ''Patient ID:''),
                      Insurance = None, Provider = None \<rparr> n rs \<and>
           list_all (\<lambda>c. payer c = ''Unknown Payer'' \<and>
                         provider c = (if fb = [] then ''Unknown Provider'' else fb)) post"
proof -
  from visit_report_split[OF assms(1,2), of h "prow # rs" fb]
  obtain info n where
    p: "parseExcelReport h (A @ prow # rs) fb =
          Inr (visitRows h fb (headerMapOf (A ! i)) emptyInfo 1 (drop (i + 1) A)
               @ visitRows h fb (headerMapOf (A ! i)) info n (prow # rs))"
    and q: "parseExcelReport h A fb = Inr (visitRows h fb (headerMapOf (A ! i)) emptyInfo 1 (drop (i + 1) A))"
    by blast
  let ?fresh = "\<lparr> Patient_Name = Some (findValueByKeyword h prow ''Patient:''),
                   Patient_ID = Some (findValueByKeyword h prow ''Patient ID:''),
                   Insurance = None, Provider = None \<rparr>"
  have r: "visitRows h fb (headerMapOf (A ! i)) info n (prow # rs) =
           visitRows h fb (headerMapOf (A ! i)) ?fresh n rs"
    by (rule visit_patient_row[OF assms(3,4)])
  have u: "list_all (\<lambda>c. payer c = ''Unknown Payer'' \<and>
                         provider c = (if fb = [] then ''Unknown Provider'' else fb))
             (visitRows h fb (headerMapOf (A ! i)) ?fresh n rs)"
    by (rule visitRows_no_insurance[OF _ _ assms(5)]) simp_all
  from p q r u show ?thesis by (metis (no_types, lifting))
qed

theorem visit_patient_row_resets_witness:
  "(findHeaderRow [[Str ''Date of Service'', Str ''CPT''], [Str ''Insurance: Aetna'', Str ''Provider: Dr Who'']] = Some 0 \<and>
    \<not> isPaymentReport ([[Str ''Date of Service'', Str ''CPT''], [Str ''Insurance: Aetna'', Str ''Provider: Dr Who'']] ! 0) \<and>
    \<not> rowSkipped sampleHost [Str ''Patient: Bob'', Str []] \<and>
    isPatientRow [Str ''Patient: Bob'', Str []] \<and>
    list_all (\<lambda>r. \<not> isInsuranceRow r) [[Str ''1/6/2024'', Str ''99213'']]) \<and>
   (\<exists>pre post n.
      parseExcelReport sampleHost
        [[Str ''Date of Service'', Str ''CPT''], [Str ''Insurance: Aetna'', Str ''Provider: Dr Who'']] ''Fallback'' = Inr pre \<and>
      parseExcelReport sampleHost
        ([[Str ''Date of Service'', Str ''CPT''], [Str ''Insurance: Aetna'', Str ''Provider: Dr Who'']]
         @ [Str ''Patient: Bob'', Str []] # [[Str ''1/6/2024'', Str ''99213'']]) ''Fallback'' = Inr (pre @ post) \<and>
      post = visitRows sampleHost ''Fallback''
               (headerMapOf ([[Str ''Date of Service'', Str ''CPT''], [Str ''Insurance: Aetna'', Str ''Provider: Dr Who'']] ! 0))
               \<lparr> Patient_Name = Some (findValueByKeyword sampleHost [Str ''Patient: Bob'', Str []] ''Patient:''),
                 Patient_ID = Some (findValueByKeyword sampleHost [Str ''Patient: Bob'', Str []] ''Patient ID:''),
                 Insurance = None, Provider = None \<rparr> n [[Str ''1/6/2024'', Str ''99213'']] \<and>
      list_all (\<lambda>c. payer c = ''Unknown Payer'' \<and>
                    provider c = (if ''Fallback'' = [] then ''Unknown Provider'' else ''Fallback'')) post) \<and>
   parseExcelReport sampleHost
     [[Str ''Date of Service'', Str ''CPT''],
      [Str ''Insurance: Aetna'', Str ''Provider: Dr Who''],
      [Str ''Patient: Bob'', Str []],
      [Str ''1/6/2024'', Str ''99213'']] ''Fallback'' =
     Inr [\<lparr> claim_id = 1, provider = ''Fallback'', cpt = ''99213'', codeType = NUMERIC, units = 0,
            charge = 0, paid = 0, patientId = ''Unknown ID'', patientName = ''Bob'',
            payer = ''Unknown Payer'', dos = Some (LocalDate 2024 1 6), dateSort = 1704499200000,
            isPaid = False \<rparr>]"
proof -
  have hy: "findHeaderRow [[Str ''Date of Service'', Str ''CPT''], [Str ''Insurance: Aetna'', Str ''Provider: Dr Who'']] = Some 0 \<and>
    \<not> isPaymentReport ([[Str ''Date of Service'', Str ''CPT''], [Str ''Insurance: Aetna'', Str ''Provider: Dr Who'']] ! 0) \<and>
    \<not> rowSkipped sampleHost [Str ''Patient: Bob'', Str []] \<and>
    isPatientRow [Str ''Patient: Bob'', Str []] \<and>
    list_all (\<lambda>r. \<not> isInsuranceRow r) [[Str ''1/6/2024'', Str ''99213'']]"
    by code_simp
  have ev: "parseExcelReport sampleHost
     [[Str ''Date of Service'', Str ''CPT''],
      [Str ''Insurance: Aetna'', Str ''Provider: Dr Who''],
      [Str ''Patient: Bob'', Str []],
      [Str ''1/6/2024'', Str ''99213'']] ''Fallback'' =
     Inr [\<lparr> claim_id = 1, provider = ''Fallback'', cpt = ''99213'', codeType = NUMERIC, units = 0,
            charge = 0, paid = 0, patientId = ''Unknown ID'', patientName = ''Bob'',
            payer = ''Unknown Payer'', dos = Some (LocalDate 2024 1 6), dateSort = 1704499200000,
            isPaid = False \<rparr>]"
    by code_simp
  from hy have a: "findHeaderRow [[Str ''Date of Service'', Str ''CPT''], [Str ''Insurance: Aetna'', Str ''Provider: Dr Who'']] = Some 0"
    and b: "\<not> isPaymentReport ([[Str ''Date of Service'', Str ''CPT''], [Str ''Insurance: Aetna'', Str ''Provider: Dr Who'']] ! 0)"
    and c: "\<not> rowSkipped sampleHost [Str ''Patient: Bob'', Str []]"
    and d: "isPatientRow [Str ''Patient: Bob'', Str []]"
    and e: "list_all (\<lambda>r. \<not> isInsuranceRow r) [[Str ''1/6/2024'', Str ''99213'']]"
    by blast+
  from visit_patient_row_resets[OF a b c d e, of "''Fallback''"] hy ev
  show ?thesis by blast
qed

end
